theory Spec2Isabelle
  imports Main "HOL-Library.Char_ord" "HOL-Library.Sublist"
begin

section \<open>Accumulators and the number\<close>

text \<open>
  \<^verbatim>\<open>mantissa_builder\<close> and \<^verbatim>\<open>exponent_builder\<close> each own one \<^verbatim>\<open>std::string buffer\<close>.
  Both structs call their field \<^verbatim>\<open>buffer\<close> and their methods \<^verbatim>\<open>notify_*\<close> and
  \<^verbatim>\<open>finalise\<close>; the names below carry the struct as a prefix to keep them apart.
\<close>

record mantissa_builder =
  mantissa_buffer :: string

record exponent_builder =
  exponent_buffer :: string

definition mantissa_notify_negative :: "mantissa_builder \<Rightarrow> mantissa_builder" where
  "mantissa_notify_negative m = m\<lparr>mantissa_buffer := mantissa_buffer m @ ''-''\<rparr>"

definition mantissa_notify_decimal :: "mantissa_builder \<Rightarrow> mantissa_builder" where
  "mantissa_notify_decimal m = m\<lparr>mantissa_buffer := mantissa_buffer m @ ''.''\<rparr>"

definition mantissa_notify_digit :: "mantissa_builder \<Rightarrow> char \<Rightarrow> mantissa_builder" where
  "mantissa_notify_digit m c = m\<lparr>mantissa_buffer := mantissa_buffer m @ [c]\<rparr>"

definition mantissa_finalise :: "mantissa_builder \<Rightarrow> mantissa_builder" where
  "mantissa_finalise m =
     (if mantissa_buffer m = [] then m\<lparr>mantissa_buffer := ''0''\<rparr> else m)"

definition exponent_notify_digit :: "exponent_builder \<Rightarrow> char \<Rightarrow> exponent_builder" where
  "exponent_notify_digit e c = e\<lparr>exponent_buffer := exponent_buffer e @ [c]\<rparr>"

definition exponent_notify_negative :: "exponent_builder \<Rightarrow> exponent_builder" where
  "exponent_notify_negative e = e\<lparr>exponent_buffer := exponent_buffer e @ ''-''\<rparr>"

text \<open>
  \<^verbatim>\<open>exponent_builder::finalise\<close>: the default \<^verbatim>\<open>"0"\<close> for an empty buffer, then
  \<^verbatim>\<open>buffer.insert(buffer.begin(), 'e')\<close>, which is not guarded by anything.
\<close>

definition exponent_finalise :: "exponent_builder \<Rightarrow> exponent_builder" where
  "exponent_finalise e =
     (let e' = (if exponent_buffer e = [] then e\<lparr>exponent_buffer := ''0''\<rparr> else e)
      in e'\<lparr>exponent_buffer := CHR ''e'' # exponent_buffer e'\<rparr>)"

record number =
  mantissa :: mantissa_builder
  exponent :: exponent_builder

text \<open>The stream operator of \<^verbatim>\<open>number\<close>: mantissa text, then exponent text.\<close>

definition render_number :: "number \<Rightarrow> string" where
  "render_number n = mantissa_buffer (mantissa n) @ exponent_buffer (exponent n)"

section \<open>The parser\<close>

text \<open>
  \<^verbatim>\<open>system::error_code\<close>: the parser only ever stores the default (no error) and
  \<^verbatim>\<open>asio::error::invalid_argument\<close>.
\<close>

datatype error_code = success | invalid_argument

text \<open>
  \<^verbatim>\<open>number_parser\<close> derives from \<^verbatim>\<open>asio::coroutine\<close>, whose only datum is the integer
  \<^verbatim>\<open>value_\<close>: 0 in a fresh coroutine, -1 once it is complete, and otherwise the number of
  the \<^verbatim>\<open>yield\<close> at which the body was left. The ten \<^verbatim>\<open>yield;\<close> statements of
  \<^verbatim>\<open>operator()\<close> are named here in source order (lines 142, 155, 168, 187, 210, 222,
  238, 250, 262, 275).
\<close>

datatype coroutine =
    Initial
  | Yield_plus
  | Yield_minus
  | Yield_zero
  | Yield_leading_digit
  | Yield_decimal
  | Yield_fraction_digit
  | Yield_exponent_start
  | Yield_exponent_minus
  | Yield_exponent_plus
  | Yield_exponent_digit
  | Complete

record number_parser =
  np_mantissa :: mantissa_builder
  np_exponent :: exponent_builder
  np_error :: error_code
  np_value :: coroutine

text \<open>
  The fields are \<^verbatim>\<open>value_\<close> (of the base class), \<^verbatim>\<open>mantissa_\<close>, \<^verbatim>\<open>exponent_\<close> and
  \<^verbatim>\<open>error_\<close>; a name cannot end with an underscore here, hence the prefix.
  \<open>fresh\<close> is a default-constructed \<^verbatim>\<open>number_parser\<close>.
\<close>

definition fresh :: number_parser where
  "fresh = \<lparr>np_mantissa = \<lparr>mantissa_buffer = []\<rparr>,
            np_exponent = \<lparr>exponent_buffer = []\<rparr>,
            np_error = success,
            np_value = Initial\<rparr>"

definition is_complete :: "number_parser \<Rightarrow> bool" where
  "is_complete np \<longleftrightarrow> np_value np = Complete"

definition error :: "number_parser \<Rightarrow> error_code" where
  "error np = np_error np"

definition get_number :: "number_parser \<Rightarrow> number" where
  "get_number np = \<lparr>mantissa = np_mantissa np, exponent = np_exponent np\<rparr>"

text \<open>
  The lambda \<^verbatim>\<open>is_digit\<close>: \<^verbatim>\<open>c >= '0' && c <= '9'\<close>. Whether \<^verbatim>\<open>char\<close> is signed or not,
  the conjunction holds exactly for the ten bytes 48 to 57, which is what the order on
  \<^typ>\<open>char\<close> (by byte value) gives.
\<close>

definition is_digit :: "char \<Rightarrow> bool" where
  "is_digit c \<longleftrightarrow> CHR ''0'' \<le> c \<and> c \<le> CHR ''9''"

subsection \<open>The body of the coroutine\<close>

text \<open>
  The iterator \<^verbatim>\<open>p\<close> is modelled by the range \<^verbatim>\<open>[p, end)\<close> it points into. Every segment
  of the body below is entered with \<^verbatim>\<open>p != end\<close>, so it takes the byte \<^verbatim>\<open>*p\<close> as \<open>c\<close> and
  the bytes after it as \<open>cs\<close>; \<^verbatim>\<open>consume()\<close> moves to \<open>cs\<close> and is true when \<open>cs\<close> is
  empty. A segment returns the parser together with the range \<^verbatim>\<open>[p, end)\<close> at the moment
  the body is left:
  \<^item> at a \<^verbatim>\<open>yield;\<close> the coroutine value becomes the number of that yield and \<open>p = end\<close>;
  \<^item> at a \<^verbatim>\<open>yield break;\<close> and at the closing brace of the body the coroutine value
    becomes -1 (\<^const>\<open>Complete\<close>): \<^verbatim>\<open>yield break\<close> jumps to \<^verbatim>\<open>terminate_coroutine\<close>, and
    the destructor of \<^verbatim>\<open>coroutine_ref\<close> stores -1 when the body ran off its end
    without a yield.
  The segments are listed from the last one of the body to the first, each following the
  statements of the source from the line given.
\<close>

text \<open>Line 270: \<^verbatim>\<open>while (is_digit())\<close> over the exponent digits, then the end of the body.\<close>

fun exponent_digits :: "number_parser \<Rightarrow> char \<Rightarrow> string \<Rightarrow> number_parser \<times> string" where
  "exponent_digits np c cs =
     (if is_digit c then
        (case cs of
           [] \<Rightarrow> (np\<lparr>np_exponent := exponent_notify_digit (np_exponent np) c,
                    np_value := Yield_exponent_digit\<rparr>, [])
         | c' # cs' \<Rightarrow>
             exponent_digits (np\<lparr>np_exponent := exponent_notify_digit (np_exponent np) c\<rparr>) c' cs')
      else (np\<lparr>np_value := Complete\<rparr>, c # cs))"

text \<open>Line 245: the optional sign of the exponent.\<close>

definition exponent_sign :: "number_parser \<Rightarrow> char \<Rightarrow> string \<Rightarrow> number_parser \<times> string" where
  "exponent_sign np c cs =
     (if c = CHR ''-'' then
        (case cs of
           [] \<Rightarrow> (np\<lparr>np_exponent := exponent_notify_negative (np_exponent np),
                    np_value := Yield_exponent_minus\<rparr>, [])
         | c' # cs' \<Rightarrow>
             exponent_digits (np\<lparr>np_exponent := exponent_notify_negative (np_exponent np)\<rparr>) c' cs')
      else if c = CHR ''+'' then
        (case cs of
           [] \<Rightarrow> (np\<lparr>np_value := Yield_exponent_plus\<rparr>, [])
         | c' # cs' \<Rightarrow> exponent_digits np c' cs')
      else exponent_digits np c cs)"

text \<open>Line 235, label \<^verbatim>\<open>on_exponent_start\<close>: \<open>c\<close> is the \<^verbatim>\<open>e\<close> or \<^verbatim>\<open>E\<close>, consumed unseen.\<close>

definition on_exponent_start :: "number_parser \<Rightarrow> char \<Rightarrow> string \<Rightarrow> number_parser \<times> string" where
  "on_exponent_start np c cs =
     (case cs of
        [] \<Rightarrow> (np\<lparr>np_value := Yield_exponent_start\<rparr>, [])
      | c' # cs' \<Rightarrow> exponent_sign np c' cs')"

text \<open>Line 217: \<^verbatim>\<open>while (is_digit())\<close> over the fraction digits, then the test of line 230.\<close>

fun fraction_digits :: "number_parser \<Rightarrow> char \<Rightarrow> string \<Rightarrow> number_parser \<times> string" where
  "fraction_digits np c cs =
     (if is_digit c then
        (case cs of
           [] \<Rightarrow> (np\<lparr>np_mantissa := mantissa_notify_digit (np_mantissa np) c,
                    np_value := Yield_fraction_digit\<rparr>, [])
         | c' # cs' \<Rightarrow>
             fraction_digits (np\<lparr>np_mantissa := mantissa_notify_digit (np_mantissa np) c\<rparr>) c' cs')
      else if c \<noteq> CHR ''e'' \<and> c \<noteq> CHR ''E'' then (np\<lparr>np_value := Complete\<rparr>, c # cs)
      else on_exponent_start np c cs)"

text \<open>Line 206, label \<^verbatim>\<open>on_mantissa_decimal\<close>: \<open>c\<close> is the decimal point.\<close>

definition on_mantissa_decimal :: "number_parser \<Rightarrow> char \<Rightarrow> string \<Rightarrow> number_parser \<times> string" where
  "on_mantissa_decimal np c cs =
     (case cs of
        [] \<Rightarrow> (np\<lparr>np_mantissa := mantissa_notify_decimal (np_mantissa np),
                 np_value := Yield_decimal\<rparr>, [])
      | c' # cs' \<Rightarrow>
          fraction_digits (np\<lparr>np_mantissa := mantissa_notify_decimal (np_mantissa np)\<rparr>) c' cs')"

text \<open>
  Line 182: \<^verbatim>\<open>while (is_digit())\<close> over the leading digits, then the tests of lines 195
  and 198.
\<close>

fun leading_digits :: "number_parser \<Rightarrow> char \<Rightarrow> string \<Rightarrow> number_parser \<times> string" where
  "leading_digits np c cs =
     (if is_digit c then
        (case cs of
           [] \<Rightarrow> (np\<lparr>np_mantissa := mantissa_notify_digit (np_mantissa np) c,
                    np_value := Yield_leading_digit\<rparr>, [])
         | c' # cs' \<Rightarrow>
             leading_digits (np\<lparr>np_mantissa := mantissa_notify_digit (np_mantissa np) c\<rparr>) c' cs')
      else if c = CHR ''e'' \<or> c = CHR ''E'' then on_exponent_start np c cs
      else if c \<noteq> CHR ''.'' then (np\<lparr>np_value := Complete\<rparr>, c # cs)
      else on_mantissa_decimal np c cs)"

text \<open>Line 174: the byte after a leading zero.\<close>

definition after_leading_zero :: "number_parser \<Rightarrow> char \<Rightarrow> string \<Rightarrow> number_parser \<times> string" where
  "after_leading_zero np c cs =
     (if c \<noteq> CHR ''.'' then (np\<lparr>np_error := invalid_argument, np_value := Complete\<rparr>, c # cs)
      else on_mantissa_decimal np c cs)"

text \<open>
  Line 164: \<^verbatim>\<open>if (*p == '0')\<close>. The zero is consumed; no \<^verbatim>\<open>notify_digit\<close> is called for
  it.
\<close>

definition leading_zero :: "number_parser \<Rightarrow> char \<Rightarrow> string \<Rightarrow> number_parser \<times> string" where
  "leading_zero np c cs =
     (if c = CHR ''0'' then
        (case cs of
           [] \<Rightarrow> (np\<lparr>np_value := Yield_zero\<rparr>, [])
         | c' # cs' \<Rightarrow> after_leading_zero np c' cs')
      else leading_digits np c cs)"

text \<open>Line 138: the optional sign of the mantissa.\<close>

definition leading_sign :: "number_parser \<Rightarrow> char \<Rightarrow> string \<Rightarrow> number_parser \<times> string" where
  "leading_sign np c cs =
     (if c = CHR ''+'' then
        (case cs of
           [] \<Rightarrow> (np\<lparr>np_value := Yield_plus\<rparr>, [])
         | c' # cs' \<Rightarrow> leading_zero np c' cs')
      else if c = CHR ''-'' then
        (case cs of
           [] \<Rightarrow> (np\<lparr>np_mantissa := mantissa_notify_negative (np_mantissa np),
                    np_value := Yield_minus\<rparr>, [])
         | c' # cs' \<Rightarrow>
             leading_zero (np\<lparr>np_mantissa := mantissa_notify_negative (np_mantissa np)\<rparr>) c' cs')
      else leading_zero np c cs)"

text \<open>
  \<^verbatim>\<open>reenter (this) { ... }\<close>: the switch on the coroutine value. A complete coroutine skips
  the body. The initial entry tests \<^verbatim>\<open>finalising()\<close> (line 132). An entry at a yield
  continues with the statement after it, which every time is an \<^verbatim>\<open>if (finalising())\<close>;
  there \<^verbatim>\<open>p\<close> is \<^verbatim>\<open>begin\<close> of the new range.
\<close>

definition fail :: "number_parser \<Rightarrow> number_parser \<times> string" where
  "fail np = (np\<lparr>np_error := invalid_argument, np_value := Complete\<rparr>, [])"

definition finish :: "number_parser \<Rightarrow> number_parser \<times> string" where
  "finish np = (np\<lparr>np_value := Complete\<rparr>, [])"

definition reenter :: "number_parser \<Rightarrow> string \<Rightarrow> number_parser \<times> string" where
  "reenter np chunk =
     (case np_value np of
        Complete \<Rightarrow> (np, chunk)
      | Initial \<Rightarrow>
          (case chunk of [] \<Rightarrow> fail np | c # cs \<Rightarrow> leading_sign np c cs)
      | Yield_plus \<Rightarrow>
          (case chunk of [] \<Rightarrow> fail np | c # cs \<Rightarrow> leading_zero np c cs)
      | Yield_minus \<Rightarrow>
          (case chunk of [] \<Rightarrow> fail np | c # cs \<Rightarrow> leading_zero np c cs)
      | Yield_zero \<Rightarrow>
          (case chunk of [] \<Rightarrow> finish np | c # cs \<Rightarrow> after_leading_zero np c cs)
      | Yield_leading_digit \<Rightarrow>
          (case chunk of [] \<Rightarrow> finish np | c # cs \<Rightarrow> leading_digits np c cs)
      | Yield_decimal \<Rightarrow>
          (case chunk of [] \<Rightarrow> finish np | c # cs \<Rightarrow> fraction_digits np c cs)
      | Yield_fraction_digit \<Rightarrow>
          (case chunk of [] \<Rightarrow> finish np | c # cs \<Rightarrow> fraction_digits np c cs)
      | Yield_exponent_start \<Rightarrow>
          (case chunk of [] \<Rightarrow> fail np | c # cs \<Rightarrow> exponent_sign np c cs)
      | Yield_exponent_minus \<Rightarrow>
          (case chunk of [] \<Rightarrow> fail np | c # cs \<Rightarrow> exponent_digits np c cs)
      | Yield_exponent_plus \<Rightarrow>
          (case chunk of [] \<Rightarrow> fail np | c # cs \<Rightarrow> exponent_digits np c cs)
      | Yield_exponent_digit \<Rightarrow>
          (case chunk of [] \<Rightarrow> finish np | c # cs \<Rightarrow> exponent_digits np c cs))"

subsection \<open>The entry points\<close>

text \<open>
  \<^verbatim>\<open>number_parser::operator()(begin, end)\<close> on the range \<open>chunk\<close>: the coroutine body, then
  (line 285) the accumulators are finalised when the range is empty, whatever the state
  and the error slot. The returned iterator \<^verbatim>\<open>p\<close> is given as its distance from
  \<^verbatim>\<open>begin\<close>.
\<close>

definition feed :: "number_parser \<Rightarrow> string \<Rightarrow> number_parser \<times> nat" where
  "feed np chunk =
     (case reenter np chunk of
        (np', rest) \<Rightarrow>
          ((if chunk = [] then
              np'\<lparr>np_mantissa := mantissa_finalise (np_mantissa np'),
                  np_exponent := exponent_finalise (np_exponent np')\<rparr>
            else np'),
           length chunk - length rest))"

text \<open>\<^verbatim>\<open>number_parser::finalise()\<close>: an empty-range call, unless an error is recorded.\<close>

definition finalise :: "number_parser \<Rightarrow> number_parser" where
  "finalise np = (if np_error np = success then fst (feed np []) else np)"

section \<open>The result and the grind harness\<close>

record result =
  ec :: error_code
  n :: number

definition result_of :: "number_parser \<Rightarrow> result" where
  "result_of np = \<lparr>ec = error np, n = get_number np\<rparr>"

text \<open>
  \<^verbatim>\<open>grind\<close> addresses the input through iterators; here an iterator is its offset from
  \<^verbatim>\<open>input.begin()\<close>. \<open>feed_range np input b e\<close> is the call \<^verbatim>\<open>np(b, e)\<close> on the bytes of
  \<open>input\<close> from offset \<open>b\<close> up to \<open>e\<close>.
\<close>

definition feed_range :: "number_parser \<Rightarrow> string \<Rightarrow> nat \<Rightarrow> nat \<Rightarrow> number_parser \<times> nat" where
  "feed_range np input b e =
     (case feed np (take (e - b) (drop b input)) of (np', k) \<Rightarrow> (np', b + k))"

text \<open>Lines 364 to 369: the whole input in one call; the pair of result and consumed length.\<close>

definition grind_base :: "string \<Rightarrow> result \<times> nat" where
  "grind_base input =
     (case feed_range fresh input 0 (length input) of
        (np_base, next) \<Rightarrow>
          (result_of (if \<not> is_complete np_base then finalise np_base else np_base), next))"

text \<open>Lines 373 to 380: the body of the loop for the split index \<open>i\<close>.\<close>

definition grind_split :: "string \<Rightarrow> nat \<Rightarrow> result \<times> nat" where
  "grind_split input i =
     (case feed_range fresh input 0 i of
        (np1, next1) \<Rightarrow>
          (case (if \<not> is_complete np1 \<and> error np1 = success
                 then feed_range np1 input next1 (length input)
                 else (np1, next1)) of
             (np2, next2) \<Rightarrow>
               (result_of (if \<not> is_complete np2 then finalise np2 else np2), next2)))"

text \<open>
  \<^verbatim>\<open>grind_failure\<close> carries a message made of the expected and the actual result and
  consumed length; the model keeps these four values.
\<close>

datatype grind_failure = Grind_failure result nat result nat

fun grind_loop :: "string \<Rightarrow> result \<times> nat \<Rightarrow> nat list \<Rightarrow> grind_failure option" where
  "grind_loop input base [] = None"
| "grind_loop input base (i # is) =
     (if grind_split input i \<noteq> base
      then Some (Grind_failure (fst base) (snd base)
                   (fst (grind_split input i)) (snd (grind_split input i)))
      else grind_loop input base is)"

definition grind :: "string \<Rightarrow> grind_failure + result" where
  "grind input =
     (case grind_loop input (grind_base input) [1 ..< length input] of
        Some failure \<Rightarrow> Inl failure
      | None \<Rightarrow> Inr (fst (grind_base input)))"

section \<open>Feeding a stream\<close>

text \<open>
  The protocol of the parser (``while there is input: \<^verbatim>\<open>next = np(begin, end)\<close>''): the
  chunks are fed in order, then \<^verbatim>\<open>finalise()\<close> signals the end of the stream.
\<close>

fun feed_all :: "number_parser \<Rightarrow> string list \<Rightarrow> number_parser" where
  "feed_all np [] = np"
| "feed_all np (chunk # chunks) = feed_all (fst (feed np chunk)) chunks"

definition parse :: "string list \<Rightarrow> number_parser" where
  "parse chunks = finalise (feed_all fresh chunks)"

text \<open>
  The bytes that the calls of \<^const>\<open>feed_all\<close> consume: of every chunk, those before the
  position that the call returns.
\<close>

fun consumed :: "number_parser \<Rightarrow> string list \<Rightarrow> string" where
  "consumed np [] = []"
| "consumed np (chunk # chunks) =
     take (snd (feed np chunk)) chunk @ consumed (fst (feed np chunk)) chunks"

section \<open>Auxiliary notions\<close>

text \<open>
  \<open>then_feed r ys\<close>: what becomes of the outcome \<open>r\<close> of a call when the range goes on with
  the bytes \<open>ys\<close>: a complete parser leaves them unconsumed, a suspended one is re-entered
  on them.
\<close>

definition then_feed :: "number_parser \<times> string \<Rightarrow> string \<Rightarrow> number_parser \<times> string" where
  "then_feed r ys =
     (case r of (np', rest) \<Rightarrow>
        if np_value np' = Complete then (np', rest @ ys) else reenter np' ys)"

text \<open>
  \<open>left_ok e b r\<close>: the outcome \<open>r\<close> of a segment started with error slot \<open>e\<close> on at
  most \<open>b\<close> bytes: the unconsumed range is no longer than the input, and a suspended
  parser has consumed everything and recorded nothing new in the error slot.
\<close>

definition left_ok :: "error_code \<Rightarrow> nat \<Rightarrow> number_parser \<times> string \<Rightarrow> bool" where
  "left_ok e b r \<longleftrightarrow>
     length (snd r) \<le> b \<and>
     np_value (fst r) \<noteq> Initial \<and>
     (np_value (fst r) \<noteq> Complete \<longrightarrow> snd r = [] \<and> np_error (fst r) = e)"

text \<open>The bytes that the body ever consumes: digits, signs, the point, the exponent marker.\<close>

definition grammar_char :: "char \<Rightarrow> bool" where
  "grammar_char c \<longleftrightarrow> is_digit c \<or> c \<in> set ''+-.eE''"

text \<open>
  \<open>single_ok np c r\<close>: the two outcomes \<open>r\<close> of re-entering a suspended or fresh parser \<open>np\<close>
  on the single byte \<open>c\<close>: the byte is consumed and the parser suspended again, or the
  byte is left and the parser complete.
\<close>

definition single_ok :: "number_parser \<Rightarrow> char \<Rightarrow> number_parser \<times> string \<Rightarrow> bool" where
  "single_ok np c r \<longleftrightarrow>
     (snd r = [] \<and> np_value (fst r) \<noteq> Complete \<and> np_value (fst r) \<noteq> Initial \<and> grammar_char c
        \<and> np_error (fst r) = np_error np)
     \<or> (snd r = [c] \<and> np_value (fst r) = Complete
          \<and> (np_error (fst r) = success \<longrightarrow> \<not> is_digit c))"

text \<open>The parser has not entered the exponent clause, and the exponent buffer is empty.\<close>

definition before_exponent :: "number_parser \<Rightarrow> bool" where
  "before_exponent np \<longleftrightarrow>
     exponent_buffer (np_exponent np) = [] \<and>
     np_value np \<notin> {Yield_exponent_start, Yield_exponent_minus, Yield_exponent_plus,
                     Yield_exponent_digit}"

text \<open>The exponent buffer holds no exponent marker.\<close>

definition no_marker :: "number_parser \<Rightarrow> bool" where
  "no_marker np \<longleftrightarrow>
     CHR ''e'' \<notin> set (exponent_buffer (np_exponent np)) \<and>
     CHR ''E'' \<notin> set (exponent_buffer (np_exponent np))"

text \<open>The parser \<open>np\<close> with the text \<open>p\<close> put in front of its mantissa buffer.\<close>

definition prepend :: "string \<Rightarrow> number_parser \<Rightarrow> number_parser" where
  "prepend p np =
     np\<lparr>np_mantissa := (np_mantissa np)\<lparr>mantissa_buffer := p @ mantissa_buffer (np_mantissa np)\<rparr>\<rparr>"


section \<open>The grammar of the spec\<close>

text \<open>
  The states of the spec (section 4.2), without the terminal ones \<^verbatim>\<open>Complete\<close> and
  \<^verbatim>\<open>Failed\<close>.
\<close>

datatype spec_state =
    Start | SignSeen | LeadingZero | IntDigits | FracPoint | FracDigits
  | ExponentStart | ExponentSign | ExponentDigits

text \<open>
  \<open>spec_next q c\<close> is the state that the byte \<open>c\<close> leads to when it is ``a digit, point,
  sign, or exponent marker in its grammatically valid position'' \<open>q\<close> (items 1 to 5 of
  the grammar), and \<open>None\<close> when \<open>c\<close> is not part of the grammar there (item 6): an
  optional sign; a first digit \<^verbatim>\<open>0\<close>, after which only a point may follow, or a run of
  digits, which may be empty; an optional point with a run of digits; an optional
  exponent marker with an optional sign and a run of digits.
\<close>

definition spec_exponent_marker :: "char \<Rightarrow> spec_state option" where
  "spec_exponent_marker c = (if c = CHR ''e'' \<or> c = CHR ''E'' then Some ExponentStart else None)"

definition spec_point :: "char \<Rightarrow> spec_state option" where
  "spec_point c = (if c = CHR ''.'' then Some FracPoint else spec_exponent_marker c)"

definition spec_first_digit :: "char \<Rightarrow> spec_state option" where
  "spec_first_digit c =
     (if c = CHR ''0'' then Some LeadingZero
      else if is_digit c then Some IntDigits
      else spec_point c)"

fun spec_next :: "spec_state \<Rightarrow> char \<Rightarrow> spec_state option" where
  "spec_next Start c =
     (if c = CHR ''+'' \<or> c = CHR ''-'' then Some SignSeen else spec_first_digit c)"
| "spec_next SignSeen c = spec_first_digit c"
| "spec_next LeadingZero c = (if c = CHR ''.'' then Some FracPoint else None)"
| "spec_next IntDigits c = (if is_digit c then Some IntDigits else spec_point c)"
| "spec_next FracPoint c = (if is_digit c then Some FracDigits else spec_exponent_marker c)"
| "spec_next FracDigits c = (if is_digit c then Some FracDigits else spec_exponent_marker c)"
| "spec_next ExponentStart c =
     (if c = CHR ''+'' \<or> c = CHR ''-'' then Some ExponentSign
      else if is_digit c then Some ExponentDigits else None)"
| "spec_next ExponentSign c = (if is_digit c then Some ExponentDigits else None)"
| "spec_next ExponentDigits c = (if is_digit c then Some ExponentDigits else None)"

text \<open>
  The number of leading bytes of a range that are part of the grammar, read from the
  state \<open>q\<close> on, and the state reached at the first byte that is not (or at the end).
\<close>

fun spec_accepted :: "spec_state \<Rightarrow> string \<Rightarrow> nat" where
  "spec_accepted q [] = 0"
| "spec_accepted q (c # cs) =
     (case spec_next q c of None \<Rightarrow> 0 | Some q' \<Rightarrow> Suc (spec_accepted q' cs))"

fun spec_state_after :: "spec_state \<Rightarrow> string \<Rightarrow> spec_state" where
  "spec_state_after q [] = q"
| "spec_state_after q (c # cs) =
     (case spec_next q c of None \<Rightarrow> q | Some q' \<Rightarrow> spec_state_after q' cs)"

text \<open>The state of the spec that a value of the coroutine stands for.\<close>

fun state_of :: "coroutine \<Rightarrow> spec_state option" where
  "state_of Initial = Some Start"
| "state_of Yield_plus = Some SignSeen"
| "state_of Yield_minus = Some SignSeen"
| "state_of Yield_zero = Some LeadingZero"
| "state_of Yield_leading_digit = Some IntDigits"
| "state_of Yield_decimal = Some FracPoint"
| "state_of Yield_fraction_digit = Some FracDigits"
| "state_of Yield_exponent_start = Some ExponentStart"
| "state_of Yield_exponent_minus = Some ExponentSign"
| "state_of Yield_exponent_plus = Some ExponentSign"
| "state_of Yield_exponent_digit = Some ExponentDigits"
| "state_of Complete = None"

text \<open>
  \<open>byte_ok q np c r\<close>: the outcome \<open>r\<close> of re-entering the parser \<open>np\<close>, in state \<open>q\<close>, on
  the single byte \<open>c\<close> is the one of the grammar: an accepted byte is consumed and leads
  to the next state, any other byte is left and completes the parser, with an error after
  a leading zero only.
\<close>

definition byte_ok :: "spec_state \<Rightarrow> number_parser \<Rightarrow> char \<Rightarrow> number_parser \<times> string \<Rightarrow> bool" where
  "byte_ok q np c r =
     (case spec_next q c of
        Some q' \<Rightarrow> snd r = [] \<and> state_of (np_value (fst r)) = Some q'
                    \<and> np_error (fst r) = np_error np
      | None \<Rightarrow> snd r = [c] \<and> np_value (fst r) = Complete
                  \<and> np_error (fst r) = (if q = LeadingZero then invalid_argument else np_error np))"

section \<open>Unfolding the segments\<close>

lemma is_digit_simps [simp]:
  "\<not> is_digit CHR ''e''" "\<not> is_digit CHR ''E''" "\<not> is_digit CHR ''.''"
  "\<not> is_digit CHR ''+''" "\<not> is_digit CHR ''-''" "is_digit CHR ''0''"
  by (simp_all add: is_digit_def)

text \<open>The coroutine value is always written last, so that updates of it meet.\<close>

lemma value_update_last [simp]:
  "np\<lparr>np_value := k, np_mantissa := m\<rparr> = np\<lparr>np_mantissa := m, np_value := k\<rparr>"
  "np\<lparr>np_value := k, np_exponent := x\<rparr> = np\<lparr>np_exponent := x, np_value := k\<rparr>"
  "np\<lparr>np_value := k, np_error := r\<rparr> = np\<lparr>np_error := r, np_value := k\<rparr>"
  by simp_all

lemma exponent_digits_Nil:
  "exponent_digits np c [] =
     (if is_digit c
      then (np\<lparr>np_exponent := exponent_notify_digit (np_exponent np) c,
               np_value := Yield_exponent_digit\<rparr>, [])
      else (np\<lparr>np_value := Complete\<rparr>, [c]))"
  by simp

lemma exponent_digits_Cons:
  "exponent_digits np c (c' # cs) =
     (if is_digit c
      then exponent_digits (np\<lparr>np_exponent := exponent_notify_digit (np_exponent np) c\<rparr>) c' cs
      else (np\<lparr>np_value := Complete\<rparr>, c # c' # cs))"
  by simp

lemma fraction_digits_Nil:
  "fraction_digits np c [] =
     (if is_digit c
      then (np\<lparr>np_mantissa := mantissa_notify_digit (np_mantissa np) c,
               np_value := Yield_fraction_digit\<rparr>, [])
      else if c \<noteq> CHR ''e'' \<and> c \<noteq> CHR ''E'' then (np\<lparr>np_value := Complete\<rparr>, [c])
      else on_exponent_start np c [])"
  by simp

lemma fraction_digits_Cons:
  "fraction_digits np c (c' # cs) =
     (if is_digit c
      then fraction_digits (np\<lparr>np_mantissa := mantissa_notify_digit (np_mantissa np) c\<rparr>) c' cs
      else if c \<noteq> CHR ''e'' \<and> c \<noteq> CHR ''E'' then (np\<lparr>np_value := Complete\<rparr>, c # c' # cs)
      else on_exponent_start np c (c' # cs))"
  by simp

lemma leading_digits_Nil:
  "leading_digits np c [] =
     (if is_digit c
      then (np\<lparr>np_mantissa := mantissa_notify_digit (np_mantissa np) c,
               np_value := Yield_leading_digit\<rparr>, [])
      else if c = CHR ''e'' \<or> c = CHR ''E'' then on_exponent_start np c []
      else if c \<noteq> CHR ''.'' then (np\<lparr>np_value := Complete\<rparr>, [c])
      else on_mantissa_decimal np c [])"
  by simp

lemma leading_digits_Cons:
  "leading_digits np c (c' # cs) =
     (if is_digit c
      then leading_digits (np\<lparr>np_mantissa := mantissa_notify_digit (np_mantissa np) c\<rparr>) c' cs
      else if c = CHR ''e'' \<or> c = CHR ''E'' then on_exponent_start np c (c' # cs)
      else if c \<noteq> CHR ''.'' then (np\<lparr>np_value := Complete\<rparr>, c # c' # cs)
      else on_mantissa_decimal np c (c' # cs))"
  by simp

declare exponent_digits.simps [simp del]
declare fraction_digits.simps [simp del]
declare leading_digits.simps [simp del]

lemmas digits_simps =
  exponent_digits_Nil exponent_digits_Cons fraction_digits_Nil fraction_digits_Cons
  leading_digits_Nil leading_digits_Cons

lemmas segment_defs =
  exponent_sign_def on_exponent_start_def on_mantissa_decimal_def after_leading_zero_def
  leading_zero_def leading_sign_def

subsection \<open>No segment reads the coroutine value\<close>

lemma exponent_digits_value [simp]:
  "exponent_digits (np\<lparr>np_value := k\<rparr>) c cs = exponent_digits np c cs"
  by (induction cs arbitrary: np c) (simp_all add: digits_simps)

lemma exponent_sign_value [simp]:
  "exponent_sign (np\<lparr>np_value := k\<rparr>) c cs = exponent_sign np c cs"
  by (simp add: exponent_sign_def split: list.splits)

lemma on_exponent_start_value [simp]:
  "on_exponent_start (np\<lparr>np_value := k\<rparr>) c cs = on_exponent_start np c cs"
  by (simp add: on_exponent_start_def split: list.splits)

lemma fraction_digits_value [simp]:
  "fraction_digits (np\<lparr>np_value := k\<rparr>) c cs = fraction_digits np c cs"
  by (induction cs arbitrary: np c) (simp_all add: digits_simps)

lemma on_mantissa_decimal_value [simp]:
  "on_mantissa_decimal (np\<lparr>np_value := k\<rparr>) c cs = on_mantissa_decimal np c cs"
  by (simp add: on_mantissa_decimal_def split: list.splits)

lemma leading_digits_value [simp]:
  "leading_digits (np\<lparr>np_value := k\<rparr>) c cs = leading_digits np c cs"
  by (induction cs arbitrary: np c) (simp_all add: digits_simps)

lemma after_leading_zero_value [simp]:
  "after_leading_zero (np\<lparr>np_value := k\<rparr>) c cs = after_leading_zero np c cs"
  by (simp add: after_leading_zero_def)

lemma leading_zero_value [simp]:
  "leading_zero (np\<lparr>np_value := k\<rparr>) c cs = leading_zero np c cs"
  by (simp add: leading_zero_def split: list.splits)

lemma leading_sign_value [simp]:
  "leading_sign (np\<lparr>np_value := k\<rparr>) c cs = leading_sign np c cs"
  by (simp add: leading_sign_def split: list.splits)

subsection \<open>Re-entering after a yield\<close>

lemma then_feed_simps [simp]:
  "then_feed (np\<lparr>np_value := Complete\<rparr>, rest) ys = (np\<lparr>np_value := Complete\<rparr>, rest @ ys)"
  "k \<noteq> Complete \<Longrightarrow> then_feed (np\<lparr>np_value := k\<rparr>, rest) ys = reenter (np\<lparr>np_value := k\<rparr>) ys"
  by (simp_all add: then_feed_def)

lemma then_feed_yield:
  "np_value np' \<noteq> Complete \<Longrightarrow> then_feed (np', rest) ys = reenter np' ys"
  by (simp add: then_feed_def)

lemma then_feed_complete:
  "np_value np' = Complete \<Longrightarrow> then_feed (np', rest) ys = (np', rest @ ys)"
  by (simp add: then_feed_def)

lemma reenter_Cons [simp]:
  "reenter (np\<lparr>np_value := Initial\<rparr>) (y # ys) = leading_sign np y ys"
  "reenter (np\<lparr>np_value := Yield_plus\<rparr>) (y # ys) = leading_zero np y ys"
  "reenter (np\<lparr>np_value := Yield_minus\<rparr>) (y # ys) = leading_zero np y ys"
  "reenter (np\<lparr>np_value := Yield_zero\<rparr>) (y # ys) = after_leading_zero np y ys"
  "reenter (np\<lparr>np_value := Yield_leading_digit\<rparr>) (y # ys) = leading_digits np y ys"
  "reenter (np\<lparr>np_value := Yield_decimal\<rparr>) (y # ys) = fraction_digits np y ys"
  "reenter (np\<lparr>np_value := Yield_fraction_digit\<rparr>) (y # ys) = fraction_digits np y ys"
  "reenter (np\<lparr>np_value := Yield_exponent_start\<rparr>) (y # ys) = exponent_sign np y ys"
  "reenter (np\<lparr>np_value := Yield_exponent_minus\<rparr>) (y # ys) = exponent_digits np y ys"
  "reenter (np\<lparr>np_value := Yield_exponent_plus\<rparr>) (y # ys) = exponent_digits np y ys"
  "reenter (np\<lparr>np_value := Yield_exponent_digit\<rparr>) (y # ys) = exponent_digits np y ys"
  by (simp_all add: reenter_def)

text \<open>
  The heart of the matter: a segment run on a range that goes on after \<open>cs\<close> does what it
  does on \<open>cs\<close> alone, and then what the re-entered body does on the rest.
\<close>

lemma exponent_digits_append:
  "exponent_digits np c (cs @ y # ys) = then_feed (exponent_digits np c cs) (y # ys)"
  by (induction cs arbitrary: np c) (simp_all add: digits_simps)

lemma exponent_sign_append:
  "exponent_sign np c (cs @ y # ys) = then_feed (exponent_sign np c cs) (y # ys)"
proof (cases cs)
  case Nil
  then show ?thesis
    using exponent_digits_append [of np c "[]" y ys]
    by (simp add: exponent_sign_def)
next
  case (Cons a as)
  then show ?thesis
    using exponent_digits_append [of np c "a # as" y ys]
    by (simp add: exponent_sign_def exponent_digits_append)
qed

lemma on_exponent_start_append:
  "on_exponent_start np c (cs @ y # ys) = then_feed (on_exponent_start np c cs) (y # ys)"
  by (cases cs) (simp_all add: on_exponent_start_def exponent_sign_append)

lemma fraction_digits_append:
  "fraction_digits np c (cs @ y # ys) = then_feed (fraction_digits np c cs) (y # ys)"
proof (induction cs arbitrary: np c)
  case Nil
  show ?case
    by (simp add: digits_simps on_exponent_start_append [of _ _ "[]", simplified])
next
  case (Cons a as)
  show ?case
    by (simp add: digits_simps Cons.IH on_exponent_start_append [of _ _ "a # as", simplified])
qed

lemma on_mantissa_decimal_append:
  "on_mantissa_decimal np c (cs @ y # ys) = then_feed (on_mantissa_decimal np c cs) (y # ys)"
  by (cases cs) (simp_all add: on_mantissa_decimal_def fraction_digits_append)

lemma leading_digits_append:
  "leading_digits np c (cs @ y # ys) = then_feed (leading_digits np c cs) (y # ys)"
proof (induction cs arbitrary: np c)
  case Nil
  show ?case
    by (simp add: digits_simps on_exponent_start_append [of _ _ "[]", simplified]
        on_mantissa_decimal_append [of _ _ "[]", simplified])
next
  case (Cons a as)
  show ?case
    by (simp add: digits_simps Cons.IH on_exponent_start_append [of _ _ "a # as", simplified]
        on_mantissa_decimal_append [of _ _ "a # as", simplified])
qed

lemma after_leading_zero_append:
  "after_leading_zero np c (cs @ y # ys) = then_feed (after_leading_zero np c cs) (y # ys)"
  by (simp add: after_leading_zero_def on_mantissa_decimal_append)

lemma leading_zero_append:
  "leading_zero np c (cs @ y # ys) = then_feed (leading_zero np c cs) (y # ys)"
proof (cases cs)
  case Nil
  then show ?thesis
    using leading_digits_append [of np c "[]" y ys]
    by (simp add: leading_zero_def)
next
  case (Cons a as)
  then show ?thesis
    using leading_digits_append [of np c "a # as" y ys]
    by (simp add: leading_zero_def after_leading_zero_append)
qed

lemma leading_sign_append:
  "leading_sign np c (cs @ y # ys) = then_feed (leading_sign np c cs) (y # ys)"
proof (cases cs)
  case Nil
  then show ?thesis
    using leading_zero_append [of np c "[]" y ys]
    by (simp add: leading_sign_def)
next
  case (Cons a as)
  then show ?thesis
    using leading_zero_append [of np c "a # as" y ys]
    by (simp add: leading_sign_def leading_zero_append)
qed


subsection \<open>What a segment leaves behind\<close>

lemma left_ok_yield:
  "k \<noteq> Initial \<Longrightarrow> k \<noteq> Complete \<Longrightarrow> np_error np = e \<Longrightarrow> left_ok e b (np\<lparr>np_value := k\<rparr>, [])"
  by (simp add: left_ok_def)

lemma left_ok_complete:
  "length rest \<le> b \<Longrightarrow> left_ok e b (np\<lparr>np_value := Complete\<rparr>, rest)"
  by (simp add: left_ok_def)

lemmas left_ok_intros = left_ok_yield left_ok_complete

lemma exponent_digits_left:
  "np_error np = e \<Longrightarrow> length cs < b \<Longrightarrow> left_ok e b (exponent_digits np c cs)"
  by (induction cs arbitrary: np c b) (simp_all add: digits_simps left_ok_intros)

lemma exponent_sign_left:
  "np_error np = e \<Longrightarrow> length cs < b \<Longrightarrow> left_ok e b (exponent_sign np c cs)"
  by (cases cs) (simp_all add: exponent_sign_def left_ok_intros exponent_digits_left)

lemma on_exponent_start_left:
  "np_error np = e \<Longrightarrow> length cs < b \<Longrightarrow> left_ok e b (on_exponent_start np c cs)"
  by (cases cs) (simp_all add: on_exponent_start_def left_ok_intros exponent_sign_left)

lemma fraction_digits_left:
  "np_error np = e \<Longrightarrow> length cs < b \<Longrightarrow> left_ok e b (fraction_digits np c cs)"
  by (induction cs arbitrary: np c b)
    (simp_all add: digits_simps left_ok_intros on_exponent_start_left)

lemma on_mantissa_decimal_left:
  "np_error np = e \<Longrightarrow> length cs < b \<Longrightarrow> left_ok e b (on_mantissa_decimal np c cs)"
  by (cases cs) (simp_all add: on_mantissa_decimal_def left_ok_intros fraction_digits_left)

lemma leading_digits_left:
  "np_error np = e \<Longrightarrow> length cs < b \<Longrightarrow> left_ok e b (leading_digits np c cs)"
  by (induction cs arbitrary: np c b)
    (simp_all add: digits_simps left_ok_intros on_exponent_start_left on_mantissa_decimal_left)

lemma after_leading_zero_left:
  "np_error np = e \<Longrightarrow> length cs < b \<Longrightarrow> left_ok e b (after_leading_zero np c cs)"
  by (simp add: after_leading_zero_def left_ok_intros on_mantissa_decimal_left)

lemma leading_zero_left:
  "np_error np = e \<Longrightarrow> length cs < b \<Longrightarrow> left_ok e b (leading_zero np c cs)"
  by (cases cs) (simp_all add: leading_zero_def left_ok_intros leading_digits_left after_leading_zero_left)

lemma leading_sign_left:
  "np_error np = e \<Longrightarrow> length cs < b \<Longrightarrow> left_ok e b (leading_sign np c cs)"
  by (cases cs) (simp_all add: leading_sign_def left_ok_intros leading_zero_left)


lemmas segment_left = exponent_digits_left exponent_sign_left on_exponent_start_left
  fraction_digits_left on_mantissa_decimal_left leading_digits_left after_leading_zero_left
  leading_zero_left leading_sign_left

lemma reenter_left:
  "np_value np \<noteq> Complete \<Longrightarrow> np_error np = e \<Longrightarrow> left_ok e (Suc (length ys)) (reenter np (y # ys))"
  by (cases "np_value np") (simp_all add: reenter_def segment_left)

section \<open>Split invariance of the grind harness\<close>

lemma split_eq_base:
  assumes "0 < i" and "i < length s"
  shows "grind_split s i = grind_base s"
proof -
  have "take i s \<noteq> []" and "drop i s \<noteq> []"
    using assms by auto
  then obtain c cs y ys where xs: "take i s = c # cs" and zs: "drop i s = y # ys"
    by (meson list.exhaust)
  have s: "s = (c # cs) @ y # ys"
    using append_take_drop_id [of i s] by (simp only: xs zs)
  have i: "i = length (c # cs)"
    using assms arg_cong [OF xs, of length] by simp
  obtain np1 rest1 where first: "leading_sign fresh c cs = (np1, rest1)"
    by (cases "leading_sign fresh c cs")
  have left1: "left_ok success (Suc (length cs)) (np1, rest1)"
    using leading_sign_left [of fresh success cs "Suc (length cs)" c] first
    by (simp add: fresh_def)
  have whole: "reenter fresh s = then_feed (np1, rest1) (y # ys)"
    using leading_sign_append [of fresh c cs y ys] first
    by (simp add: s reenter_def fresh_def)
  have prefix: "reenter fresh (take i s) = (np1, rest1)"
    using first by (simp add: s i reenter_def fresh_def)
  show ?thesis
  proof (cases "np_value np1 = Complete")
    case True
    then show ?thesis
      using left1 whole prefix
      by (simp add: grind_split_def grind_base_def feed_range_def feed_def then_feed_complete
          is_complete_def left_ok_def s i)
  next
    case False
    with left1 have r1: "rest1 = []" and e1: "np_error np1 = success"
      by (simp_all add: left_ok_def)
    obtain np2 rest2 where second: "reenter np1 (y # ys) = (np2, rest2)"
      by (cases "reenter np1 (y # ys)")
    have "left_ok success (Suc (length ys)) (np2, rest2)"
      using reenter_left [OF False e1, of ys y] second by simp
    then have len2: "length rest2 \<le> Suc (length ys)"
      by (simp add: left_ok_def)
    have whole': "reenter fresh s = (np2, rest2)"
      using whole second False by (simp add: then_feed_yield)
    show ?thesis
      using False e1 r1 prefix whole' second len2
      by (simp add: grind_split_def grind_base_def feed_range_def feed_def
          is_complete_def error_def s i)
  qed
qed

lemma grind_loop_None:
  "\<forall>i \<in> set is. 0 < i \<and> i < length input \<Longrightarrow>
   grind_loop input (grind_base input) is = None"
  by (induction "is") (simp_all add: split_eq_base)

lemma grind_never_fails: "grind input = Inr (fst (grind_base input))"
  by (simp add: grind_def grind_loop_None)

text \<open>
  C1. Split invariance. For every input \<open>s\<close> and every split index \<open>i\<close> with
  \<open>1 \<le> i < length s\<close>, a fresh parser fed the prefix \<open>[0, i)\<close>, then (when neither complete
  nor failed) the suffix \<open>[i, end)\<close>, then finalised when still incomplete, ends with the
  same error value, the same number (mantissa text and exponent text) and the same
  consumed length as a fresh parser fed all of \<open>s\<close> in one call and finalised under the
  same condition.
\<close>

theorem split_invariance:
  assumes "1 \<le> i" and "i < length s"
  shows "grind_split s i = grind_base s"
  using assms by (simp add: split_eq_base)

theorem split_invariance_witness:
  "(1::nat) \<le> 2 \<and> 2 < length ''100.0'' \<and> grind_split ''100.0'' 2 = grind_base ''100.0''"
  using split_invariance [of 2 "''100.0''"] by simp

section \<open>Evaluation and byte-wise reasoning\<close>

lemmas builder_defs =
  mantissa_notify_negative_def mantissa_notify_decimal_def mantissa_notify_digit_def
  mantissa_finalise_def exponent_notify_digit_def exponent_notify_negative_def
  exponent_finalise_def

lemmas eval_simps = parse_def finalise_def feed_def reenter_def fresh_def segment_defs
  digits_simps fail_def finish_def is_digit_def builder_defs
  result_of_def error_def get_number_def is_complete_def

lemmas segment_append = exponent_digits_append exponent_sign_append on_exponent_start_append
  fraction_digits_append on_mantissa_decimal_append leading_digits_append
  after_leading_zero_append leading_zero_append leading_sign_append

text \<open>
  The run of the program: \<^verbatim>\<open>grind("100.0")\<close> raises no \<^verbatim>\<open>grind_failure\<close> and returns a
  result without error that is printed as \<^verbatim>\<open>100.0e0\<close>; all five bytes are consumed.
\<close>

lemma grind_example:
  "grind ''100.0'' =
     Inr \<lparr>ec = success,
          n = \<lparr>mantissa = \<lparr>mantissa_buffer = ''100.0''\<rparr>,
               exponent = \<lparr>exponent_buffer = ''e0''\<rparr>\<rparr>\<rparr>"
  "snd (grind_base ''100.0'') = 5"
  "render_number \<lparr>mantissa = \<lparr>mantissa_buffer = ''100.0''\<rparr>,
                  exponent = \<lparr>exponent_buffer = ''e0''\<rparr>\<rparr> = ''100.0e0''"
  by (simp_all add: grind_never_fails grind_base_def feed_range_def render_number_def eval_simps)

subsection \<open>One byte at a time\<close>

lemma reenter_append:
  "reenter np (c # cs @ y # ys) = then_feed (reenter np (c # cs)) (y # ys)"
  by (cases "np_value np")
    (simp_all add: reenter_def segment_append [of _ _ cs, simplified] then_feed_def)

lemma reenter_Cons_Cons:
  "reenter np (c # y # ys) = then_feed (reenter np [c]) (y # ys)"
  using reenter_append [of np c "[]" y ys] by simp

lemma feed_Cons: "fst (feed np (c # cs)) = fst (reenter np (c # cs))"
  by (simp add: feed_def split: prod.splits)

text \<open>
  A property of the parser that every single byte preserves is preserved by every
  non-empty range.
\<close>

lemma reenter_chars:
  assumes step: "\<And>np c. P np \<Longrightarrow> Q c \<Longrightarrow> P (fst (reenter np [c]))"
    and "P np" and "\<forall>c \<in> set chunk. Q c" and "chunk \<noteq> []"
  shows "P (fst (reenter np chunk))"
  using assms(2-)
proof (induction chunk arbitrary: np)
  case Nil
  then show ?case by simp
next
  case (Cons c cs)
  show ?case
  proof (cases cs)
    case Nil
    then show ?thesis using Cons.prems step by simp
  next
    case (Cons y ys)
    have P1: "P (fst (reenter np [c]))"
      using Cons.prems step by simp
    obtain np1 rest1 where r1: "reenter np [c] = (np1, rest1)"
      by (cases "reenter np [c]")
    have eq: "reenter np (c # cs) = then_feed (np1, rest1) (y # ys)"
      using reenter_Cons_Cons [of np c y ys] r1 Cons by simp
    show ?thesis
    proof (cases "np_value np1 = Complete")
      case True
      then show ?thesis using eq P1 r1 by (simp add: then_feed_complete)
    next
      case False
      have "P (fst (reenter np1 cs))"
        using Cons.IH [of np1] P1 r1 Cons.prems Cons by simp
      then show ?thesis using eq False Cons by (simp add: then_feed_yield)
    qed
  qed
qed

lemma feed_all_chars:
  assumes step: "\<And>np c. P np \<Longrightarrow> Q c \<Longrightarrow> P (fst (reenter np [c]))"
    and "P np" and "\<forall>chunk \<in> set chunks. \<forall>c \<in> set chunk. Q c" and "[] \<notin> set chunks"
  shows "P (feed_all np chunks)"
  using assms(2-)
proof (induction chunks arbitrary: np)
  case Nil
  then show ?case by simp
next
  case (Cons chunk chunks)
  then obtain c cs where chunk: "chunk = c # cs"
    by (cases chunk) auto
  have "P (fst (reenter np chunk))"
    by (rule reenter_chars [of P Q, OF step]) (use Cons.prems chunk in auto)
  then show ?case
    using Cons by (simp add: chunk feed_Cons)
qed

lemma single_ok_yield:
  "k \<noteq> Complete \<Longrightarrow> k \<noteq> Initial \<Longrightarrow> grammar_char c \<Longrightarrow> np_error np' = np_error np \<Longrightarrow>
   single_ok np c (np'\<lparr>np_value := k\<rparr>, [])"
  by (simp add: single_ok_def)

lemma single_ok_complete:
  "np_error np' = success \<longrightarrow> \<not> is_digit c \<Longrightarrow> single_ok np c (np'\<lparr>np_value := Complete\<rparr>, [c])"
  by (simp add: single_ok_def)

lemma grammar_char_simps:
  "is_digit c \<Longrightarrow> grammar_char c"
  "grammar_char CHR ''+''" "grammar_char CHR ''-''" "grammar_char CHR ''.''"
  "grammar_char CHR ''e''" "grammar_char CHR ''E''" "grammar_char CHR ''0''"
  by (simp_all add: grammar_char_def)

lemma reenter_single_ok:
  "np_value np \<noteq> Complete \<Longrightarrow> single_ok np c (reenter np [c])"
  by (cases "np_value np")
    (simp_all add: reenter_def segment_defs digits_simps single_ok_yield single_ok_complete
      grammar_char_simps)

lemma reenter_stop:
  assumes "np_value np \<noteq> Complete" and "reenter np (c # cs) = (np', rest)"
  shows "\<exists>pre. c # cs = pre @ rest \<and> (\<forall>ch \<in> set pre. grammar_char ch) \<and>
           (np_value np' = Complete \<and> np_error np' = success \<longrightarrow>
              rest \<noteq> [] \<and> \<not> is_digit (hd rest))"
  using assms
proof (induction cs arbitrary: np c)
  case Nil
  from reenter_single_ok [OF Nil(1), of c] Nil(2) show ?case
    by (auto simp add: single_ok_def)
next
  case (Cons y ys)
  obtain np1 rest1 where r1: "reenter np [c] = (np1, rest1)"
    by (cases "reenter np [c]")
  have eq: "then_feed (np1, rest1) (y # ys) = (np', rest)"
    using reenter_Cons_Cons [of np c y ys] r1 Cons.prems(2) by simp
  from reenter_single_ok [OF Cons.prems(1), of c] r1
  consider
    (yield) "rest1 = []" "np_value np1 \<noteq> Complete" "grammar_char c"
  | (stop) "rest1 = [c]" "np_value np1 = Complete" "np_error np1 = success \<longrightarrow> \<not> is_digit c"
    by (auto simp add: single_ok_def)
  then show ?case
  proof cases
    case yield
    then have "reenter np1 (y # ys) = (np', rest)"
      using eq by (simp add: then_feed_yield)
    from Cons.IH [OF yield(2) this] obtain pre where
      "y # ys = pre @ rest" "\<forall>ch \<in> set pre. grammar_char ch"
      "np_value np' = Complete \<and> np_error np' = success \<longrightarrow> rest \<noteq> [] \<and> \<not> is_digit (hd rest)"
      by blast
    with yield have "c # y # ys = (c # pre) @ rest \<and> (\<forall>ch \<in> set (c # pre). grammar_char ch) \<and>
           (np_value np' = Complete \<and> np_error np' = success \<longrightarrow>
              rest \<noteq> [] \<and> \<not> is_digit (hd rest))"
      by simp
    then show ?thesis by blast
  next
    case stop
    then have "np' = np1" "rest = c # y # ys"
      using eq by (simp_all add: then_feed_complete)
    with stop have "c # y # ys = [] @ rest \<and> (\<forall>ch \<in> set []. grammar_char ch) \<and>
           (np_value np' = Complete \<and> np_error np' = success \<longrightarrow>
              rest \<noteq> [] \<and> \<not> is_digit (hd rest))"
      by simp
    then show ?thesis by blast
  qed
qed

lemma feed_stop:
  assumes "np_value np \<noteq> Complete" and "chunk \<noteq> []" and "feed np chunk = (np', k)"
    and "is_complete np'" and "np_error np' = success"
  shows "k < length chunk \<and> \<not> is_digit (chunk ! k) \<and> (\<forall>j < k. grammar_char (chunk ! j))"
proof -
  obtain c cs where chunk: "chunk = c # cs"
    using assms(2) by (cases chunk) auto
  obtain rest where r: "reenter np (c # cs) = (np', rest)" and k: "k = length chunk - length rest"
    using assms(3) by (cases "reenter np (c # cs)") (auto simp add: feed_def chunk)
  from reenter_stop [OF assms(1) r] assms(4,5) obtain pre where
    pre: "c # cs = pre @ rest" "\<forall>ch \<in> set pre. grammar_char ch" "rest \<noteq> []" "\<not> is_digit (hd rest)"
    by (auto simp add: is_complete_def)
  have kp: "k = length pre"
    using k pre(1) chunk by simp
  have "chunk ! k = hd rest"
    using pre(1,3) chunk kp by (simp add: nth_append hd_conv_nth)
  moreover have "k < length chunk"
    using pre(1,3) chunk kp by simp
  moreover have "\<forall>j < k. grammar_char (chunk ! j)"
    using pre(1,2) chunk kp by (simp add: nth_append)
  ultimately show ?thesis
    using pre(4) by simp
qed

subsection \<open>The exponent accumulator\<close>

lemma before_exponent_step:
  "before_exponent np \<Longrightarrow> c \<noteq> CHR ''e'' \<and> c \<noteq> CHR ''E'' \<Longrightarrow> before_exponent (fst (reenter np [c]))"
  by (cases "np_value np")
    (simp_all add: before_exponent_def reenter_def segment_defs digits_simps)

lemma no_marker_step:
  "no_marker np \<Longrightarrow> no_marker (fst (reenter np [c]))"
  by (cases "np_value np")
    (auto simp add: no_marker_def reenter_def segment_defs digits_simps
      exponent_notify_digit_def exponent_notify_negative_def)

lemma reenter_Nil_exponent: "np_exponent (fst (reenter np [])) = np_exponent np"
  by (cases "np_value np") (simp_all add: reenter_def fail_def finish_def)

lemma reenter_Nil_mantissa: "np_mantissa (fst (reenter np [])) = np_mantissa np"
  by (cases "np_value np") (simp_all add: reenter_def fail_def finish_def)

lemma feed_Nil:
  "fst (feed np []) =
     (fst (reenter np []))\<lparr>np_mantissa := mantissa_finalise (np_mantissa np),
                            np_exponent := exponent_finalise (np_exponent np)\<rparr>"
  using reenter_Nil_exponent [of np] reenter_Nil_mantissa [of np]
  by (cases "reenter np []") (simp add: feed_def)

lemma finalise_exponent:
  "np_error (finalise np) = success \<Longrightarrow>
   exponent_buffer (np_exponent (finalise np)) =
     CHR ''e'' # (if exponent_buffer (np_exponent np) = [] then ''0''
                  else exponent_buffer (np_exponent np))"
  by (cases "np_error np = success")
    (simp_all add: finalise_def feed_Nil exponent_finalise_def Let_def)

section \<open>Leading zero, end of stream, trailing bytes, leading point\<close>

text \<open>
  C3. The leading-zero rule. \<^verbatim>\<open>"0"\<close> and then the end of the stream gives no error and the
  number \<^verbatim>\<open>("0", "e0")\<close>; \<^verbatim>\<open>"0."\<close> and then the end of the stream gives no error;
  \<^verbatim>\<open>"01"\<close> records \<^verbatim>\<open>invalid_argument\<close>; and after a lone leading zero every byte \<open>c\<close>
  other than the decimal point (a digit, \<^verbatim>\<open>e\<close>, \<^verbatim>\<open>E\<close> or anything else) records
  \<^verbatim>\<open>invalid_argument\<close>, whether it comes in the same range as the zero or in the next.
\<close>

theorem leading_zero_rule:
  assumes "c \<noteq> CHR ''.''"
  shows "result_of (parse [''0'']) =
           \<lparr>ec = success,
            n = \<lparr>mantissa = \<lparr>mantissa_buffer = ''0''\<rparr>, exponent = \<lparr>exponent_buffer = ''e0''\<rparr>\<rparr>\<rparr>
         \<and> np_error (parse [''0.'']) = success
         \<and> np_error (fst (feed fresh ''01'')) = invalid_argument
         \<and> np_error (fst (feed fresh (CHR ''0'' # c # cs))) = invalid_argument
         \<and> np_error (feed_all fresh [''0'', c # cs]) = invalid_argument"
  using assms by (simp add: eval_simps)

theorem leading_zero_rule_witness:
  "CHR ''e'' \<noteq> CHR ''.''
   \<and> result_of (parse [''0'']) =
           \<lparr>ec = success,
            n = \<lparr>mantissa = \<lparr>mantissa_buffer = ''0''\<rparr>, exponent = \<lparr>exponent_buffer = ''e0''\<rparr>\<rparr>\<rparr>
   \<and> np_error (parse [''0.'']) = success
   \<and> np_error (fst (feed fresh ''01'')) = invalid_argument
   \<and> np_error (fst (feed fresh ''0e5'')) = invalid_argument
   \<and> np_error (feed_all fresh [''0'', ''e5'']) = invalid_argument"
  using leading_zero_rule [of "CHR ''e''" "''5''"] by simp

text \<open>
  C5. Incomplete numbers and empty input. \<^verbatim>\<open>"-"\<close>, \<^verbatim>\<open>"1e"\<close> and \<^verbatim>\<open>"1e-"\<close>, each fed alone
  and followed by the end of the stream, record \<^verbatim>\<open>invalid_argument\<close>; so does an empty
  range given to a fresh parser as its very first call.
\<close>

theorem end_of_stream_incomplete:
  "np_error (parse [''-'']) = invalid_argument
   \<and> np_error (parse [''1e'']) = invalid_argument
   \<and> np_error (parse [''1e-'']) = invalid_argument
   \<and> np_error (fst (feed fresh [])) = invalid_argument"
  by (simp add: eval_simps)

lemmas spec_defs = spec_first_digit_def spec_point_def spec_exponent_marker_def

lemma reenter_byte_ok:
  "state_of (np_value np) = Some q \<Longrightarrow> byte_ok q np c (reenter np [c])"
  by (cases "np_value np")
    (auto simp add: byte_ok_def reenter_def segment_defs digits_simps spec_defs)


lemma spec_accepted_le: "spec_accepted q s \<le> length s"
  by (induction s arbitrary: q) (simp_all split: option.splits)

lemma spec_next_at_stop:
  "spec_accepted q s < length s \<Longrightarrow> spec_next (spec_state_after q s) (s ! spec_accepted q s) = None"
  by (induction s arbitrary: q) (auto split: option.splits)

lemma spec_next_before_stop:
  "j < spec_accepted q s \<Longrightarrow> spec_next (spec_state_after q (take j s)) (s ! j) \<noteq> None"
proof (induction s arbitrary: q j)
  case Nil
  then show ?case by simp
next
  case (Cons c cs)
  then show ?case
    by (cases j) (auto split: option.splits)
qed

lemma reenter_spec:
  assumes "state_of (np_value np) = Some q" and "reenter np (c # cs) = (np', rest)"
  shows "rest = drop (spec_accepted q (c # cs)) (c # cs)
    \<and> (rest = [] \<longrightarrow> state_of (np_value np') = Some (spec_state_after q (c # cs))
          \<and> np_error np' = np_error np)
    \<and> (rest \<noteq> [] \<longrightarrow> np_value np' = Complete
          \<and> np_error np' =
              (if spec_state_after q (c # cs) = LeadingZero then invalid_argument
               else np_error np))"
  using assms
proof (induction cs arbitrary: np c q)
  case Nil
  from reenter_byte_ok [OF Nil(1), of c] Nil(2) show ?case
    by (auto simp add: byte_ok_def split: option.splits)
next
  case (Cons y ys)
  obtain np1 rest1 where r1: "reenter np [c] = (np1, rest1)"
    by (cases "reenter np [c]")
  have eq: "then_feed (np1, rest1) (y # ys) = (np', rest)"
    using reenter_Cons_Cons [of np c y ys] r1 Cons.prems(2) by simp
  have ok: "byte_ok q np c (np1, rest1)"
    using reenter_byte_ok [OF Cons.prems(1), of c] r1 by simp
  show ?case
  proof (cases "spec_next q c")
    case None
    with ok have "rest1 = [c]" "np_value np1 = Complete"
      "np_error np1 = (if q = LeadingZero then invalid_argument else np_error np)"
      by (simp_all add: byte_ok_def)
    then show ?thesis
      using eq None by (auto simp add: then_feed_complete)
  next
    case (Some q')
    with ok have 1: "rest1 = []" "state_of (np_value np1) = Some q'" "np_error np1 = np_error np"
      by (simp_all add: byte_ok_def)
    then have "np_value np1 \<noteq> Complete"
      by auto
    then have "reenter np1 (y # ys) = (np', rest)"
      using eq by (simp add: then_feed_yield)
    from Cons.IH [OF 1(2) this] show ?thesis
      using Some 1(3) by simp
  qed
qed

lemma feed_spec:
  assumes "state_of (np_value np) = Some q" and "chunk \<noteq> []" and "feed np chunk = (np', k)"
  shows "k = spec_accepted q chunk"
    and "is_complete np' \<longleftrightarrow> k < length chunk"
    and "np_error np' =
      (if k < length chunk \<and> spec_state_after q chunk = LeadingZero then invalid_argument
       else np_error np)"
proof -
  obtain c cs where chunk: "chunk = c # cs"
    using assms(2) by (cases chunk) auto
  obtain rest where r: "reenter np (c # cs) = (np', rest)" and k: "k = length chunk - length rest"
    using assms(3) by (cases "reenter np (c # cs)") (auto simp add: feed_def chunk)
  note spec = reenter_spec [OF assms(1) r]
  have le: "spec_accepted q chunk \<le> length chunk"
    by (rule spec_accepted_le)
  from spec have rest: "rest = drop (spec_accepted q chunk) chunk"
    by (simp add: chunk)
  then show k': "k = spec_accepted q chunk"
    using k le by simp
  have empty: "rest = [] \<longleftrightarrow> \<not> k < length chunk"
    using rest k' le by auto
  show "is_complete np' \<longleftrightarrow> k < length chunk"
    using spec empty by (cases "rest = []") (auto simp add: is_complete_def chunk)
  show "np_error np' =
      (if k < length chunk \<and> spec_state_after q chunk = LeadingZero then invalid_argument
       else np_error np)"
    using spec empty by (cases "rest = []") (auto simp add: chunk)
qed

text \<open>
  C6. Trailing garbage. The single range \<^verbatim>\<open>"100.0x"\<close> is consumed up to position 5, the
  parser is complete without error, and \<^verbatim>\<open>finalise()\<close> then gives the number
  \<^verbatim>\<open>("100.0", "e0")\<close>. In general, for a parser in the state \<open>q\<close> of the grammar (fresh or
  suspended) and a non-empty range \<open>chunk\<close>, the position \<open>k\<close> that the call returns is the
  number of leading bytes of the range that are part of the grammar; the parser is
  complete exactly when \<open>k\<close> lies inside the range, and then the byte at \<open>k\<close> is the first
  one that is not part of the grammar: it is rejected in the state reached, every byte
  before it is accepted in its own state, and it is not consumed. The error slot changes
  only when the number stops right after a leading zero. A number completed without error
  stops at a byte that is not a digit, after digits, signs, points and exponent markers
  only.
\<close>

theorem trailing_garbage:
  assumes "state_of (np_value np) = Some q" and "chunk \<noteq> []" and "feed np chunk = (np', k)"
  shows "feed fresh ''100.0x'' =
           (\<lparr>np_mantissa = \<lparr>mantissa_buffer = ''100.0''\<rparr>,
             np_exponent = \<lparr>exponent_buffer = []\<rparr>,
             np_error = success, np_value = Complete\<rparr>, 5)
         \<and> result_of (finalise (fst (feed fresh ''100.0x''))) =
           \<lparr>ec = success,
            n = \<lparr>mantissa = \<lparr>mantissa_buffer = ''100.0''\<rparr>,
                 exponent = \<lparr>exponent_buffer = ''e0''\<rparr>\<rparr>\<rparr>
         \<and> k = spec_accepted q chunk
         \<and> (is_complete np' \<longleftrightarrow> k < length chunk)
         \<and> (k < length chunk \<longrightarrow> spec_next (spec_state_after q chunk) (chunk ! k) = None)
         \<and> (\<forall>j < k. spec_next (spec_state_after q (take j chunk)) (chunk ! j) \<noteq> None)
         \<and> np_error np' =
             (if k < length chunk \<and> spec_state_after q chunk = LeadingZero then invalid_argument
              else np_error np)
         \<and> (is_complete np' \<and> np_error np' = success \<longrightarrow>
              \<not> is_digit (chunk ! k) \<and> (\<forall>j < k. grammar_char (chunk ! j)))"
proof -
  have "feed fresh ''100.0x'' =
           (\<lparr>np_mantissa = \<lparr>mantissa_buffer = ''100.0''\<rparr>,
             np_exponent = \<lparr>exponent_buffer = []\<rparr>,
             np_error = success, np_value = Complete\<rparr>, 5)"
    by (simp add: eval_simps)
  moreover have "result_of (finalise (fst (feed fresh ''100.0x''))) =
           \<lparr>ec = success,
            n = \<lparr>mantissa = \<lparr>mantissa_buffer = ''100.0''\<rparr>,
                 exponent = \<lparr>exponent_buffer = ''e0''\<rparr>\<rparr>\<rparr>"
    by (simp add: eval_simps)
  moreover note k = feed_spec(1) [OF assms]
  moreover note feed_spec(2) [OF assms]
  moreover have "k < length chunk \<longrightarrow> spec_next (spec_state_after q chunk) (chunk ! k) = None"
    using spec_next_at_stop [of q chunk] by (simp add: k)
  moreover have "\<forall>j < k. spec_next (spec_state_after q (take j chunk)) (chunk ! j) \<noteq> None"
    using spec_next_before_stop [of _ q chunk] by (simp add: k)
  moreover note feed_spec(3) [OF assms]
  moreover have "is_complete np' \<and> np_error np' = success \<longrightarrow>
              \<not> is_digit (chunk ! k) \<and> (\<forall>j < k. grammar_char (chunk ! j))"
  proof -
    have "np_value np \<noteq> Complete"
      using assms(1) by auto
    from feed_stop [OF this assms(2,3)] show ?thesis
      by blast
  qed
  ultimately show ?thesis
    by blast
qed

theorem trailing_garbage_witness:
  "state_of (np_value fresh) = Some Start \<and> ''100.0x'' \<noteq> []
   \<and> feed fresh ''100.0x'' =
           (\<lparr>np_mantissa = \<lparr>mantissa_buffer = ''100.0''\<rparr>,
             np_exponent = \<lparr>exponent_buffer = []\<rparr>,
             np_error = success, np_value = Complete\<rparr>, 5)
   \<and> (5::nat) = spec_accepted Start ''100.0x''
   \<and> (5::nat) < length ''100.0x''
   \<and> spec_next (spec_state_after Start ''100.0x'') (''100.0x'' ! 5) = None
   \<and> \<not> is_digit (''100.0x'' ! 5)"
proof -
  have f: "feed fresh ''100.0x'' =
           (\<lparr>np_mantissa = \<lparr>mantissa_buffer = ''100.0''\<rparr>,
             np_exponent = \<lparr>exponent_buffer = []\<rparr>,
             np_error = success, np_value = Complete\<rparr>, 5)"
    by (simp add: eval_simps)
  have v: "state_of (np_value fresh) = Some Start" and c: "''100.0x'' \<noteq> []"
    by (simp_all add: fresh_def)
  have l: "(5::nat) < length ''100.0x''"
    by simp
  have "(5::nat) = spec_accepted Start ''100.0x''
     \<and> spec_next (spec_state_after Start ''100.0x'') (''100.0x'' ! 5) = None
     \<and> \<not> is_digit (''100.0x'' ! 5)"
    using trailing_garbage [OF v c f] l by (simp add: is_complete_def)
  with f v c l show ?thesis
    by blast
qed

text \<open>
  C9. No digit is required. A non-empty range whose first byte \<open>c\<close> is no sign, no digit,
  no point and no exponent marker completes a fresh parser at once, without error and at
  position 0, and \<^verbatim>\<open>finalise()\<close> then gives the number \<^verbatim>\<open>("0", "e0")\<close>.
\<close>

theorem no_digit_required:
  assumes "c \<noteq> CHR ''+''" and "c \<noteq> CHR ''-''" and "\<not> is_digit c"
    and "c \<noteq> CHR ''.''" and "c \<noteq> CHR ''e''" and "c \<noteq> CHR ''E''"
  shows "feed fresh (c # cs) = (fresh\<lparr>np_value := Complete\<rparr>, 0)
         \<and> result_of (finalise (fst (feed fresh (c # cs)))) =
             \<lparr>ec = success,
              n = \<lparr>mantissa = \<lparr>mantissa_buffer = ''0''\<rparr>, exponent = \<lparr>exponent_buffer = ''e0''\<rparr>\<rparr>\<rparr>"
proof -
  from assms(3) have "c \<noteq> CHR ''0''" by auto
  with assms have "leading_sign fresh c cs = (fresh\<lparr>np_value := Complete\<rparr>, c # cs)"
    by (cases cs) (simp_all add: segment_defs digits_simps)
  then have "feed fresh (c # cs) = (fresh\<lparr>np_value := Complete\<rparr>, 0)"
    by (simp add: feed_def reenter_def fresh_def)
  then show ?thesis
    by (simp add: finalise_def feed_def reenter_def fresh_def result_of_def error_def
        get_number_def builder_defs)
qed

theorem no_digit_required_witness:
  "CHR ''x'' \<noteq> CHR ''+'' \<and> CHR ''x'' \<noteq> CHR ''-'' \<and> \<not> is_digit CHR ''x''
   \<and> CHR ''x'' \<noteq> CHR ''.'' \<and> CHR ''x'' \<noteq> CHR ''e'' \<and> CHR ''x'' \<noteq> CHR ''E''
   \<and> feed fresh ''x'' = (fresh\<lparr>np_value := Complete\<rparr>, 0)
   \<and> result_of (finalise (fst (feed fresh ''x''))) =
             \<lparr>ec = success,
              n = \<lparr>mantissa = \<lparr>mantissa_buffer = ''0''\<rparr>, exponent = \<lparr>exponent_buffer = ''e0''\<rparr>\<rparr>\<rparr>"
proof -
  have d: "\<not> is_digit CHR ''x''"
    by (simp add: is_digit_def)
  have c: "CHR ''x'' \<noteq> CHR ''+''" "CHR ''x'' \<noteq> CHR ''-''" "CHR ''x'' \<noteq> CHR ''.''"
    "CHR ''x'' \<noteq> CHR ''e''" "CHR ''x'' \<noteq> CHR ''E''"
    by simp_all
  show ?thesis
    using no_digit_required [OF c(1) c(2) d c(3) c(4) c(5), of "[]"] c d by blast
qed

lemma fraction_digits_all:
  "\<forall>d \<in> set (c # cs). is_digit d \<Longrightarrow>
   fraction_digits np c cs =
     (np\<lparr>np_mantissa := (np_mantissa np)\<lparr>mantissa_buffer := mantissa_buffer (np_mantissa np) @ c # cs\<rparr>,
         np_value := Yield_fraction_digit\<rparr>, [])"
  by (induction cs arbitrary: np c) (simp_all add: digits_simps mantissa_notify_digit_def)

text \<open>
  C10. A number may start with the decimal point. For every run \<open>ds\<close> of digits, the
  input made of a point and \<open>ds\<close>, followed by the end of the stream, gives no error, the
  mantissa text made of the point and \<open>ds\<close>, and the exponent text \<^verbatim>\<open>"e0"\<close>; the same
  input after a \<^verbatim>\<open>+\<close> sign gives the same result. With \<open>ds\<close> the single digit 5:
  \<^verbatim>\<open>".5"\<close> and \<^verbatim>\<open>"+.5"\<close> both give the mantissa \<^verbatim>\<open>".5"\<close>.
\<close>

theorem point_first_accepted:
  assumes "\<forall>d \<in> set ds. is_digit d"
  shows "result_of (parse [CHR ''.'' # ds]) =
           \<lparr>ec = success,
            n = \<lparr>mantissa = \<lparr>mantissa_buffer = CHR ''.'' # ds\<rparr>,
                 exponent = \<lparr>exponent_buffer = ''e0''\<rparr>\<rparr>\<rparr>
         \<and> result_of (parse [CHR ''+'' # CHR ''.'' # ds]) =
           \<lparr>ec = success,
            n = \<lparr>mantissa = \<lparr>mantissa_buffer = CHR ''.'' # ds\<rparr>,
                 exponent = \<lparr>exponent_buffer = ''e0''\<rparr>\<rparr>\<rparr>"
proof (cases ds)
  case Nil
  then show ?thesis by (simp add: eval_simps)
next
  case (Cons d ds')
  then show ?thesis
    using assms fraction_digits_all [of d ds']
    by (simp add: eval_simps del: fraction_digits_Cons fraction_digits_Nil)
qed

theorem point_first_accepted_witness:
  "is_digit CHR ''5''
   \<and> result_of (parse [''.5'']) =
           \<lparr>ec = success,
            n = \<lparr>mantissa = \<lparr>mantissa_buffer = ''.5''\<rparr>,
                 exponent = \<lparr>exponent_buffer = ''e0''\<rparr>\<rparr>\<rparr>
   \<and> result_of (parse [''+.5'']) =
           \<lparr>ec = success,
            n = \<lparr>mantissa = \<lparr>mantissa_buffer = ''.5''\<rparr>,
                 exponent = \<lparr>exponent_buffer = ''e0''\<rparr>\<rparr>\<rparr>"
proof -
  have d: "is_digit CHR ''5''"
    by (simp add: is_digit_def)
  then have "\<forall>d \<in> set ''5''. is_digit d"
    by simp
  from point_first_accepted [OF this] d show ?thesis
    by blast
qed

section \<open>The exponent text\<close>

text \<open>
  A property that every byte preserves, needing \<open>Q\<close> only of the bytes that are consumed, is
  preserved by a call, given \<open>Q\<close> of the bytes before the returned position.
\<close>

lemma reenter_complete: "np_value np = Complete \<Longrightarrow> reenter np chunk = (np, chunk)"
  by (simp add: reenter_def)

lemma reenter_consumed:
  assumes step: "\<And>np c. P np \<Longrightarrow> (snd (reenter np [c]) = [] \<longrightarrow> Q c) \<Longrightarrow> P (fst (reenter np [c]))"
    and "P np" and "reenter np (c # cs) = (np', rest)"
    and "\<forall>x \<in> set (take (length (c # cs) - length rest) (c # cs)). Q x"
  shows "P np'"
  using assms(2-)
proof (induction cs arbitrary: np c)
  case Nil
  have "snd (reenter np [c]) = [] \<longrightarrow> Q c"
    using Nil.prems(2,3) by simp
  from step [OF Nil.prems(1) this] Nil.prems(2) show ?case
    by simp
next
  case (Cons y ys)
  obtain np1 rest1 where r1: "reenter np [c] = (np1, rest1)"
    by (cases "reenter np [c]")
  have eq: "then_feed (np1, rest1) (y # ys) = (np', rest)"
    using reenter_Cons_Cons [of np c y ys] r1 Cons.prems(2) by simp
  show ?case
  proof (cases "np_value np1 = Complete")
    case True
    then have res: "np' = np1" "rest = rest1 @ y # ys"
      using eq by (simp_all add: then_feed_complete)
    have "snd (reenter np [c]) = [] \<longrightarrow> Q c"
      using Cons.prems(3) r1 res by simp
    from step [OF Cons.prems(1) this] r1 res show ?thesis
      by simp
  next
    case False
    then have np: "np_value np \<noteq> Complete"
      using r1 by (auto simp add: reenter_complete)
    from reenter_single_ok [OF np, of c] r1 False have rest1: "rest1 = []"
      by (simp add: single_ok_def)
    have next_call: "reenter np1 (y # ys) = (np', rest)"
      using eq False by (simp add: then_feed_yield)
    have "left_ok (np_error np1) (Suc (length ys)) (np', rest)"
      using reenter_left [OF False refl, of ys y] next_call by simp
    then have len: "length rest \<le> Suc (length ys)"
      by (simp add: left_ok_def)
    then have tk: "take (length (c # y # ys) - length rest) (c # y # ys) =
        c # take (length (y # ys) - length rest) (y # ys)"
      by (simp add: Suc_diff_le)
    have "Q c" and rest_Q: "\<forall>x \<in> set (take (length (y # ys) - length rest) (y # ys)). Q x"
      using Cons.prems(3) unfolding tk by simp_all
    then have "P np1"
      using step [OF Cons.prems(1), of c] r1 by simp
    from Cons.IH [OF this next_call rest_Q] show ?thesis .
  qed
qed

lemma feed_consumed:
  assumes step: "\<And>np c. P np \<Longrightarrow> (snd (reenter np [c]) = [] \<longrightarrow> Q c) \<Longrightarrow> P (fst (reenter np [c]))"
    and "P np" and "chunk \<noteq> []" and "\<forall>x \<in> set (take (snd (feed np chunk)) chunk). Q x"
  shows "P (fst (feed np chunk))"
proof -
  obtain c cs where chunk: "chunk = c # cs"
    using assms(3) by (cases chunk) auto
  obtain np' rest where r: "reenter np (c # cs) = (np', rest)"
    by (cases "reenter np (c # cs)")
  then have f: "feed np chunk = (np', length (c # cs) - length rest)"
    by (simp add: feed_def chunk)
  have "P np'"
    by (rule reenter_consumed [of P Q, OF step assms(2) r]) (use assms(4) f chunk in auto)
  then show ?thesis
    using f by simp
qed

lemma feed_all_consumed:
  assumes step: "\<And>np c. P np \<Longrightarrow> (snd (reenter np [c]) = [] \<longrightarrow> Q c) \<Longrightarrow> P (fst (reenter np [c]))"
    and "P np" and "[] \<notin> set chunks" and "\<forall>x \<in> set (consumed np chunks). Q x"
  shows "P (feed_all np chunks)"
  using assms(2-)
proof (induction chunks arbitrary: np)
  case Nil
  then show ?case by simp
next
  case (Cons chunk chunks)
  have "P (fst (feed np chunk))"
    by (rule feed_consumed [of P Q, OF step]) (use Cons.prems in auto)
  from Cons.IH [OF this] Cons.prems show ?case
    by simp
qed

lemma before_exponent_marker:
  assumes "before_exponent np" and "c = CHR ''e'' \<or> c = CHR ''E''" and "snd (reenter np [c]) \<noteq> []"
  shows "before_exponent (fst (reenter np [c]))"
  using assms(2)
proof
  assume "c = CHR ''e''"
  then show ?thesis
    using assms(1,3)
    by (cases "np_value np")
      (simp_all add: before_exponent_def reenter_def segment_defs digits_simps)
next
  assume "c = CHR ''E''"
  then show ?thesis
    using assms(1,3)
    by (cases "np_value np")
      (simp_all add: before_exponent_def reenter_def segment_defs digits_simps)
qed

lemma before_exponent_consumed_step:
  assumes "before_exponent np"
    and "snd (reenter np [c]) = [] \<longrightarrow> c \<noteq> CHR ''e'' \<and> c \<noteq> CHR ''E''"
  shows "before_exponent (fst (reenter np [c]))"
proof (cases "c = CHR ''e'' \<or> c = CHR ''E''")
  case True
  with assms(2) have "snd (reenter np [c]) \<noteq> []"
    by blast
  from before_exponent_marker [OF assms(1) True this] show ?thesis .
next
  case False
  then show ?thesis
    using before_exponent_step [OF assms(1), of c] by simp
qed

lemma no_marker_fresh: "no_marker fresh" and before_exponent_fresh: "before_exponent fresh"
  by (simp_all add: no_marker_def before_exponent_def fresh_def)

text \<open>
  C7. The exponent after \<^verbatim>\<open>finalise()\<close>. For every sequence of chunks fed to a fresh
  parser and finalised without error, the exponent text is \<^verbatim>\<open>e\<close> followed by at least one
  more byte. When no chunk is empty (an empty range is the end-of-stream signal), what
  follows the leading \<^verbatim>\<open>e\<close> holds neither \<^verbatim>\<open>e\<close> nor \<^verbatim>\<open>E\<close>: the marker read from the
  input is never appended, the leading one is made by \<^verbatim>\<open>exponent_builder::finalise\<close>. And
  when the bytes consumed hold no exponent marker at all (the number has no exponent
  clause), the exponent text is exactly \<^verbatim>\<open>"e0"\<close>.
\<close>

theorem exponent_after_finalise:
  "(np_error (parse chunks) = success \<longrightarrow>
      (\<exists>x. exponent_buffer (np_exponent (parse chunks)) = CHR ''e'' # x \<and> x \<noteq> []))
   \<and> ([] \<notin> set chunks \<and> np_error (parse chunks) = success \<longrightarrow>
      (\<exists>x. exponent_buffer (np_exponent (parse chunks)) = CHR ''e'' # x
           \<and> CHR ''e'' \<notin> set x \<and> CHR ''E'' \<notin> set x))
   \<and> ([] \<notin> set chunks
        \<and> CHR ''e'' \<notin> set (consumed fresh chunks) \<and> CHR ''E'' \<notin> set (consumed fresh chunks)
        \<and> np_error (parse chunks) = success \<longrightarrow>
      exponent_buffer (np_exponent (parse chunks)) = ''e0'')"
proof (intro conjI impI)
  assume "np_error (parse chunks) = success"
  then show "\<exists>x. exponent_buffer (np_exponent (parse chunks)) = CHR ''e'' # x \<and> x \<noteq> []"
    using finalise_exponent [of "feed_all fresh chunks"] by (simp add: parse_def)
next
  assume a: "[] \<notin> set chunks \<and> np_error (parse chunks) = success"
  have "no_marker (feed_all fresh chunks)"
    by (rule feed_all_chars [of no_marker "\<lambda>c. True"])
      (use a in \<open>simp_all add: no_marker_step no_marker_fresh\<close>)
  then show "\<exists>x. exponent_buffer (np_exponent (parse chunks)) = CHR ''e'' # x
           \<and> CHR ''e'' \<notin> set x \<and> CHR ''E'' \<notin> set x"
    using a finalise_exponent [of "feed_all fresh chunks"] by (simp add: parse_def no_marker_def)
next
  assume a: "[] \<notin> set chunks
        \<and> CHR ''e'' \<notin> set (consumed fresh chunks) \<and> CHR ''E'' \<notin> set (consumed fresh chunks)
        \<and> np_error (parse chunks) = success"
  have "before_exponent (feed_all fresh chunks)"
    by (rule feed_all_consumed [of before_exponent "\<lambda>c. c \<noteq> CHR ''e'' \<and> c \<noteq> CHR ''E''"])
      (use a in \<open>auto intro: before_exponent_consumed_step before_exponent_fresh\<close>)
  then show "exponent_buffer (np_exponent (parse chunks)) = ''e0''"
    using a finalise_exponent [of "feed_all fresh chunks"]
    by (simp add: parse_def before_exponent_def)
qed

theorem exponent_after_finalise_witness:
  "[] \<notin> set [''12'', ''.5x'']
   \<and> CHR ''e'' \<notin> set (consumed fresh [''12'', ''.5x''])
   \<and> CHR ''E'' \<notin> set (consumed fresh [''12'', ''.5x''])
   \<and> np_error (parse [''12'', ''.5x'']) = success
   \<and> exponent_buffer (np_exponent (parse [''12'', ''.5x''])) = ''e0''"
proof -
  have h: "[] \<notin> set [''12'', ''.5x'']
     \<and> CHR ''e'' \<notin> set (consumed fresh [''12'', ''.5x''])
     \<and> CHR ''E'' \<notin> set (consumed fresh [''12'', ''.5x''])
     \<and> np_error (parse [''12'', ''.5x'']) = success"
    by (simp add: eval_simps)
  from exponent_after_finalise [of "[''12'', ''.5x'']"] h show ?thesis
    by blast
qed

section \<open>The sign of the mantissa\<close>

lemma prepend_fields [simp]:
  "np_value (prepend p np) = np_value np"
  "np_error (prepend p np) = np_error np"
  "np_exponent (prepend p np) = np_exponent np"
  "mantissa_buffer (np_mantissa (prepend p np)) = p @ mantissa_buffer (np_mantissa np)"
  by (simp_all add: prepend_def)

lemma reenter_prepend_single:
  "reenter (prepend p np) [c] = apfst (prepend p) (reenter np [c])"
  by (cases "np_value np")
    (simp_all add: reenter_def segment_defs digits_simps prepend_def mantissa_notify_negative_def
      mantissa_notify_decimal_def mantissa_notify_digit_def)

lemma reenter_prepend:
  "reenter (prepend p np) (c # cs) = apfst (prepend p) (reenter np (c # cs))"
proof (induction cs arbitrary: np c)
  case Nil
  show ?case by (rule reenter_prepend_single)
next
  case (Cons y ys)
  obtain np1 rest1 where r1: "reenter np [c] = (np1, rest1)"
    by (cases "reenter np [c]")
  then have r1': "reenter (prepend p np) [c] = (prepend p np1, rest1)"
    by (simp add: reenter_prepend_single)
  show ?case
    using Cons.IH [of np1 y]
    by (cases "np_value np1 = Complete")
      (simp_all add: reenter_Cons_Cons r1 r1' then_feed_complete then_feed_yield)
qed

lemma leading_zero_reenter: "leading_zero np c cs = reenter (np\<lparr>np_value := Yield_plus\<rparr>) (c # cs)"
  by simp

lemma leading_zero_prepend:
  "leading_zero (prepend p np) c cs = apfst (prepend p) (leading_zero np c cs)"
proof -
  have "leading_zero (prepend p np) c cs = reenter (prepend p (np\<lparr>np_value := Yield_plus\<rparr>)) (c # cs)"
    by (simp add: prepend_def)
  then show ?thesis
    by (simp add: reenter_prepend)
qed

lemma feed_fresh_plus:
  assumes "c \<noteq> CHR ''+''" and "c \<noteq> CHR ''-''"
  shows "feed fresh (CHR ''+'' # c # cs) = (fst (feed fresh (c # cs)), Suc (snd (feed fresh (c # cs))))"
proof -
  obtain np' rest where r: "leading_zero fresh c cs = (np', rest)"
    by (cases "leading_zero fresh c cs")
  have "left_ok success (Suc (length cs)) (np', rest)"
    using leading_zero_left [of fresh success cs "Suc (length cs)" c] r by (simp add: fresh_def)
  then have "length rest \<le> Suc (length cs)"
    by (simp add: left_ok_def)
  then show ?thesis
    using assms r by (simp add: feed_def reenter_def fresh_def leading_sign_def Suc_diff_le)
qed

lemma feed_fresh_minus:
  assumes "c \<noteq> CHR ''+''" and "c \<noteq> CHR ''-''"
  shows "feed fresh (CHR ''-'' # c # cs) =
    (prepend ''-'' (fst (feed fresh (c # cs))), Suc (snd (feed fresh (c # cs))))"
proof -
  obtain np' rest where r: "leading_zero fresh c cs = (np', rest)"
    by (cases "leading_zero fresh c cs")
  have "left_ok success (Suc (length cs)) (np', rest)"
    using leading_zero_left [of fresh success cs "Suc (length cs)" c] r by (simp add: fresh_def)
  then have len: "length rest \<le> Suc (length cs)"
    by (simp add: left_ok_def)
  have "fresh\<lparr>np_mantissa := mantissa_notify_negative (np_mantissa fresh)\<rparr> = prepend ''-'' fresh"
    by (simp add: prepend_def fresh_def mantissa_notify_negative_def)
  then have "leading_zero (fresh\<lparr>np_mantissa := mantissa_notify_negative (np_mantissa fresh)\<rparr>) c cs =
      (prepend ''-'' np', rest)"
    using r by (simp add: leading_zero_prepend)
  then have "reenter fresh (CHR ''-'' # c # cs) = (prepend ''-'' np', rest)"
    by (simp add: reenter_def leading_sign_def fresh_def)
  moreover have "reenter fresh (c # cs) = (np', rest)"
    using assms r by (simp add: reenter_def leading_sign_def fresh_def)
  ultimately show ?thesis
    using len by (simp add: feed_def Suc_diff_le)
qed

text \<open>
  C4. Sign handling. A leading \<^verbatim>\<open>+\<close> is consumed and appended to neither accumulator: the
  parser is left as it was but for the position in the body, and when more bytes follow
  in the range (the first of them, \<open>c\<close>, being no sign) the parser ends as it does on these
  bytes alone, one position further. A leading \<^verbatim>\<open>-\<close> appends one \<^verbatim>\<open>-\<close> to the mantissa
  before anything else: the parser ends as it does on the following bytes alone, with
  \<^verbatim>\<open>-\<close> in front of the mantissa text. So \<^verbatim>\<open>"+5"\<close> gives the mantissa \<^verbatim>\<open>"5"\<close> and \<^verbatim>\<open>"-5"\<close>
  the mantissa \<^verbatim>\<open>"-5"\<close>.
\<close>

theorem sign_handling:
  assumes "c \<noteq> CHR ''+''" and "c \<noteq> CHR ''-''"
  shows "feed fresh ''+'' = (fresh\<lparr>np_value := Yield_plus\<rparr>, 1)
    \<and> feed fresh (CHR ''+'' # c # cs) = (fst (feed fresh (c # cs)), Suc (snd (feed fresh (c # cs))))
    \<and> feed fresh ''-'' =
        (fresh\<lparr>np_mantissa := \<lparr>mantissa_buffer = ''-''\<rparr>, np_value := Yield_minus\<rparr>, 1)
    \<and> feed fresh (CHR ''-'' # c # cs) =
        (prepend ''-'' (fst (feed fresh (c # cs))), Suc (snd (feed fresh (c # cs))))
    \<and> mantissa_buffer (np_mantissa (parse [''+5''])) = ''5''
    \<and> mantissa_buffer (np_mantissa (parse [''-5''])) = ''-5''"
proof -
  have "feed fresh ''+'' = (fresh\<lparr>np_value := Yield_plus\<rparr>, 1)"
    by (simp add: eval_simps)
  moreover have "feed fresh ''-'' =
        (fresh\<lparr>np_mantissa := \<lparr>mantissa_buffer = ''-''\<rparr>, np_value := Yield_minus\<rparr>, 1)"
    by (simp add: eval_simps)
  moreover have "mantissa_buffer (np_mantissa (parse [''+5''])) = ''5''"
    and "mantissa_buffer (np_mantissa (parse [''-5''])) = ''-5''"
    by (simp_all add: eval_simps)
  ultimately show ?thesis
    using feed_fresh_plus [OF assms] feed_fresh_minus [OF assms] by blast
qed

theorem sign_handling_witness:
  "CHR ''5'' \<noteq> CHR ''+'' \<and> CHR ''5'' \<noteq> CHR ''-''
   \<and> feed fresh ''+5'' = (fst (feed fresh ''5''), Suc (snd (feed fresh ''5'')))
   \<and> feed fresh ''-5'' = (prepend ''-'' (fst (feed fresh ''5'')), Suc (snd (feed fresh ''5'')))
   \<and> mantissa_buffer (np_mantissa (parse [''+5''])) = ''5''
   \<and> mantissa_buffer (np_mantissa (parse [''-5''])) = ''-5''"
proof -
  have c: "CHR ''5'' \<noteq> CHR ''+''" "CHR ''5'' \<noteq> CHR ''-''"
    by simp_all
  from sign_handling [OF c, of "[]"] c show ?thesis
    by blast
qed

section \<open>The leading zero is not appended\<close>

text \<open>
  C2. The claim: a first digit \<^verbatim>\<open>0\<close> is appended to the mantissa accumulator, so that the
  mantissa text of an input like \<^verbatim>\<open>"0.5"\<close> begins with \<^verbatim>\<open>0\<close>. The code does not do so. The
  branch for a leading \<^verbatim>\<open>0\<close> (lines 164 to 180) consumes the digit without the
  \<^verbatim>\<open>notify_digit\<close> that the three digit loops call (lines 184, 219 and 272), and the
  default of \<^verbatim>\<open>mantissa_builder::finalise\<close> makes up for it only when the buffer is empty.
  Evaluated: after \<^verbatim>\<open>"0"\<close> the mantissa buffer of the parser is still empty; \<^verbatim>\<open>"0.5"\<close> ends
  without error with the mantissa text \<^verbatim>\<open>".5"\<close>, \<^verbatim>\<open>"-0"\<close> with \<^verbatim>\<open>"-"\<close> and \<^verbatim>\<open>"-0.5"\<close> with
  \<^verbatim>\<open>"-.5"\<close>, whereas every zero of \<^verbatim>\<open>"10.05"\<close> is in its mantissa text.
\<close>

theorem leading_zero_dropped:
  "feed fresh ''0'' = (fresh\<lparr>np_value := Yield_zero\<rparr>, 1)
   \<and> np_error (parse [''0.5'']) = success
   \<and> mantissa_buffer (np_mantissa (parse [''0.5''])) = ''.5''
   \<and> hd (mantissa_buffer (np_mantissa (parse [''0.5'']))) \<noteq> CHR ''0''
   \<and> result_of (parse [''-0'']) =
       \<lparr>ec = success,
        n = \<lparr>mantissa = \<lparr>mantissa_buffer = ''-''\<rparr>, exponent = \<lparr>exponent_buffer = ''e0''\<rparr>\<rparr>\<rparr>
   \<and> result_of (parse [''-0.5'']) =
       \<lparr>ec = success,
        n = \<lparr>mantissa = \<lparr>mantissa_buffer = ''-.5''\<rparr>, exponent = \<lparr>exponent_buffer = ''e0''\<rparr>\<rparr>\<rparr>
   \<and> result_of (parse [''10.05'']) =
       \<lparr>ec = success,
        n = \<lparr>mantissa = \<lparr>mantissa_buffer = ''10.05''\<rparr>, exponent = \<lparr>exponent_buffer = ''e0''\<rparr>\<rparr>\<rparr>"
  by (simp add: eval_simps)

section \<open>Finalising a terminal parser\<close>

lemma feed_Nil_complete:
  "is_complete np \<Longrightarrow>
   fst (feed np []) = np\<lparr>np_mantissa := mantissa_finalise (np_mantissa np),
                         np_exponent := exponent_finalise (np_exponent np)\<rparr>"
  by (simp add: feed_Nil is_complete_def reenter_complete)

text \<open>
  C8, as stated, fails: \<^verbatim>\<open>"1x"\<close> completes the parser; one \<^verbatim>\<open>finalise()\<close> gives the exponent
  text \<^verbatim>\<open>"e0"\<close>, a second one \<^verbatim>\<open>"ee0"\<close>.
\<close>

theorem finalise_terminal_counterexample:
  "is_complete (finalise (fst (feed fresh ''1x'')))
   \<and> np_error (finalise (fst (feed fresh ''1x''))) = success
   \<and> exponent_buffer (np_exponent (finalise (fst (feed fresh ''1x'')))) = ''e0''
   \<and> exponent_buffer (np_exponent (finalise (finalise (fst (feed fresh ''1x''))))) = ''ee0''"
  by (simp add: eval_simps)

text \<open>
  C8, amended. \<^verbatim>\<open>finalise()\<close> leaves a parser with a recorded error unchanged. An empty-range
  call on a complete parser skips the body and runs \<^verbatim>\<open>finalise\<close> of both accumulators.
  So \<^verbatim>\<open>finalise()\<close> on a complete parser without error whose accumulators are finalised
  already (both non-empty) keeps the parser complete, the error slot empty and the
  mantissa text as it is, and puts one more \<^verbatim>\<open>e\<close> in front of the exponent text.
\<close>

theorem finalise_terminal:
  "(np_error np \<noteq> success \<longrightarrow> finalise np = np)
   \<and> (is_complete np \<longrightarrow>
        fst (feed np []) = np\<lparr>np_mantissa := mantissa_finalise (np_mantissa np),
                              np_exponent := exponent_finalise (np_exponent np)\<rparr>)
   \<and> (is_complete np \<and> np_error np = success
        \<and> mantissa_buffer (np_mantissa np) \<noteq> [] \<and> exponent_buffer (np_exponent np) \<noteq> [] \<longrightarrow>
        is_complete (finalise np) \<and> np_error (finalise np) = success
        \<and> np_mantissa (finalise np) = np_mantissa np
        \<and> exponent_buffer (np_exponent (finalise np)) = CHR ''e'' # exponent_buffer (np_exponent np))"
  by (simp add: finalise_def feed_Nil_complete mantissa_finalise_def exponent_finalise_def
      is_complete_def Let_def)

theorem finalise_terminal_witness:
  "np_error (fst (feed fresh ''01'')) \<noteq> success
   \<and> finalise (fst (feed fresh ''01'')) = fst (feed fresh ''01'')
   \<and> is_complete (finalise (fst (feed fresh ''1x'')))
   \<and> np_error (finalise (fst (feed fresh ''1x''))) = success
   \<and> mantissa_buffer (np_mantissa (finalise (fst (feed fresh ''1x'')))) \<noteq> []
   \<and> exponent_buffer (np_exponent (finalise (fst (feed fresh ''1x'')))) \<noteq> []
   \<and> np_mantissa (finalise (finalise (fst (feed fresh ''1x'')))) =
       np_mantissa (finalise (fst (feed fresh ''1x'')))
   \<and> exponent_buffer (np_exponent (finalise (finalise (fst (feed fresh ''1x''))))) =
       CHR ''e'' # exponent_buffer (np_exponent (finalise (fst (feed fresh ''1x''))))"
proof -
  have a: "np_error (fst (feed fresh ''01'')) \<noteq> success"
    by (simp add: eval_simps)
  have b: "is_complete (finalise (fst (feed fresh ''1x'')))
     \<and> np_error (finalise (fst (feed fresh ''1x''))) = success
     \<and> mantissa_buffer (np_mantissa (finalise (fst (feed fresh ''1x'')))) \<noteq> []
     \<and> exponent_buffer (np_exponent (finalise (fst (feed fresh ''1x'')))) \<noteq> []"
    by (simp add: eval_simps)
  from finalise_terminal [of "fst (feed fresh ''01'')"] a
    finalise_terminal [of "finalise (fst (feed fresh ''1x''))"] b
  show ?thesis
    by blast
qed

end
